theory Spec2Isabelle
  imports Main "HOL-Library.Char_ord" "HOL-Library.List_Lexorder" "HOL-Library.Multiset"
begin

section \<open>Strings and paths\<close>

text \<open>
  Python strings are modelled as HOL strings: a name is a list of code points below 256.
  A \<open>Path\<close> is the list of its components below the file system root; the scanner only
  ever builds paths with \<open>base / name\<close>, which appends one component.
\<close>

type_synonym path = "string list"

definition startswith :: "string \<Rightarrow> string \<Rightarrow> bool" where
  "startswith s pre = (take (length pre) s = pre)"

definition endswith :: "string \<Rightarrow> string \<Rightarrow> bool" where
  "endswith s suf = (length suf \<le> length s \<and> drop (length s - length suf) s = suf)"

text \<open>\<open>str.lower()\<close> on code points below 256: A-Z and the accented capitals
  U+00C0..U+00DE (without the multiplication sign U+00D7) move up by 32.\<close>

definition lower_char :: "char \<Rightarrow> char" where
  "lower_char c =
     (let n = (of_char c :: nat)
      in if (65 \<le> n \<and> n \<le> 90) \<or> (192 \<le> n \<and> n \<le> 222 \<and> n \<noteq> 215)
         then char_of (n + 32) else c)"

definition lower :: "string \<Rightarrow> string" where
  "lower s = map lower_char s"

text \<open>\<open>Path.name\<close>: the last component, empty for the root.\<close>

definition name_of :: "path \<Rightarrow> string" where
  "name_of p = (if p = [] then [] else last p)"

text \<open>\<open>str(path)\<close> of an absolute POSIX path.\<close>

definition path_str :: "path \<Rightarrow> string" where
  "path_str p = (if p = [] then ''/'' else concat (map (\<lambda>n. CHR ''/'' # n) p))"

text \<open>Decimal rendering of a natural number, as an f-string does for an integer.\<close>

definition digit_char :: "nat \<Rightarrow> char" where
  "digit_char d = char_of (48 + d)"

fun show_nat :: "nat \<Rightarrow> string" where
  "show_nat n = (if n < 10 then [digit_char n] else show_nat (n div 10) @ [digit_char (n mod 10)])"

declare show_nat.simps [simp del]

section \<open>The file system as the scanner sees it\<close>

text \<open>
  The code reaches the file system through paths only: \<open>exists\<close>, \<open>is_dir\<close>,
  \<open>iterdir\<close>, \<open>glob\<close> and \<open>stat().st_mtime\<close>. A directory entry carries its modification
  time, whether it can be listed (\<open>iterdir\<close> raises \<open>PermissionError\<close> otherwise) and the
  names in the order the operating system enumerates them. Modification times are
  natural numbers (time stamps in microseconds, the resolution of \<open>datetime\<close>).
\<close>

datatype entry =
    File nat
  | Dir nat bool "string list"

fun mtime :: "entry \<Rightarrow> nat" where
  "mtime (File t) = t"
| "mtime (Dir t r ns) = t"

datatype error = PermissionError | OSError | ValueError

text \<open>
  What the analysis reads from file contents and from recursive globbing is not a
  function of the directory structure above; it is taken as an observation of the
  directory: the formatted size of \<open>get_directory_size\<close> (\<open>None\<close> when it raises), the
  current time, the formatted date, the results of \<open>detect_project_type\<close> and
  \<open>_detect_js_frameworks\<close> (extension and manifest tables over all files), and per
  directory the facts the health rules read from file contents and recursive globs:
  \<open>languages\<close> is the result of \<open>_detect_languages\<close>, \<open>recent_files\<close> the number of
  visible files younger than 30 days that the loop reaches, \<open>total_files\<close> the length
  of \<open>rglob('*')\<close> (\<open>None\<close> when it raises), \<open>large_files\<close> the names of the files
  over 10 MB; the other fields are the substring tests on manifests and scripts.
\<close>

record content_obs =
  languages :: "string list"
  has_secrets :: bool
  readme_multi_lang :: bool
  requirements_pinned :: bool
  init_files :: nat
  pkg_scripts :: bool
  pkg_dev_dependencies :: bool
  cargo_version_authors :: bool
  cargo_dependencies :: bool
  go_module_decl :: bool
  java_files :: nat
  sh_proper_shebang :: bool
  sh_error_handling :: bool
  sh_logging :: bool
  sh_documented_scripts :: nat
  recent_files :: nat
  total_files :: "nat option"
  large_files :: "string list"

record world =
  node :: "path \<Rightarrow> entry option"
  du :: "path \<Rightarrow> string option"
  now :: int
  strftime :: "nat \<Rightarrow> string"
  detect_project_type :: "path \<Rightarrow> string \<times> string \<times> string"
  detect_js_frameworks :: "path \<Rightarrow> string list"
  content :: "path \<Rightarrow> content_obs"

definition exists_path :: "'a world_scheme \<Rightarrow> path \<Rightarrow> bool" where
  "exists_path w p = (node w p \<noteq> None)"

definition is_dir :: "'a world_scheme \<Rightarrow> path \<Rightarrow> bool" where
  "is_dir w p = (case node w p of Some (Dir t r ns) \<Rightarrow> True | _ \<Rightarrow> False)"

definition iterdir :: "'a world_scheme \<Rightarrow> path \<Rightarrow> error + path list" where
  "iterdir w p =
     (case node w p of
        Some (Dir t r ns) \<Rightarrow> if r then Inr (map (\<lambda>n. p @ [n]) ns) else Inl PermissionError
      | _ \<Rightarrow> Inl OSError)"

text \<open>\<open>list(path.glob('*' + ext))\<close>: the entries whose name ends with \<open>ext\<close>; pathlib
  yields nothing for a directory it cannot list.\<close>

definition glob_ext :: "'a world_scheme \<Rightarrow> path \<Rightarrow> string \<Rightarrow> path list" where
  "glob_ext w p ext =
     (case iterdir w p of Inl e \<Rightarrow> [] | Inr ds \<Rightarrow> filter (\<lambda>d. endswith (name_of d) ext) ds)"

text \<open>The comprehension \<open>[d for d in p.iterdir() if d.is_dir() and not d.name.startswith('.')]\<close>.\<close>

definition visible_subdirs :: "'a world_scheme \<Rightarrow> path \<Rightarrow> error + path list" where
  "visible_subdirs w p =
     (case iterdir w p of
        Inl e \<Rightarrow> Inl e
      | Inr ds \<Rightarrow> Inr (filter (\<lambda>d. is_dir w d \<and> \<not> startswith (name_of d) ''.'') ds))"

section \<open>Classifier\<close>

definition project_indicators :: "string list" where
  "project_indicators =
     [''package.json'', ''requirements.txt'', ''Cargo.toml'', ''go.mod'', ''pom.xml'',
      ''composer.json'', ''Gemfile'', ''setup.py'', ''README.md'', ''src'', ''lib'', ''app'']"

text \<open>\<open>_has_project_indicators\<close>: the loop returns at the first indicator that exists.\<close>

definition has_project_indicators :: "'a world_scheme \<Rightarrow> path \<Rightarrow> bool" where
  "has_project_indicators w p = list_ex (\<lambda>i. exists_path w (p @ [i])) project_indicators"

text \<open>
  \<open>_is_collection_folder\<close>. Any exception gives \<open>False\<close>. The counting loop is a fold;
  \<open>project_like_count >= len(subdirs) * 0.5\<close> compares an integer with half an integer,
  written here without the fraction.
\<close>

definition count_project_like :: "'a world_scheme \<Rightarrow> path list \<Rightarrow> nat" where
  "count_project_like w subdirs =
     fold (\<lambda>subdir c. if has_project_indicators w subdir then c + 1 else c) subdirs 0"

definition is_collection_folder :: "'a world_scheme \<Rightarrow> path \<Rightarrow> bool" where
  "is_collection_folder w p =
     (case visible_subdirs w p of
        Inl e \<Rightarrow> False
      | Inr subdirs \<Rightarrow>
          if length subdirs < 3 then False
          else length subdirs \<le> 2 * count_project_like w subdirs)"

text \<open>\<open>_quick_detect_project_type\<close>: (type, language, framework).\<close>

definition quick_detect_project_type :: "'a world_scheme \<Rightarrow> path \<Rightarrow> string \<times> string \<times> string" where
  "quick_detect_project_type w p =
     (if exists_path w (p @ [''package.json'']) then (''nodejs'', ''javascript'', ''node'')
      else if exists_path w (p @ [''requirements.txt'']) \<or> exists_path w (p @ [''setup.py''])
        then (''python'', ''python'', ''flask'')
      else if exists_path w (p @ [''Cargo.toml'']) then (''rust'', ''rust'', ''cargo'')
      else if exists_path w (p @ [''go.mod'']) then (''go'', ''go'', ''go'')
      else if exists_path w (p @ [''pom.xml'']) then (''java'', ''java'', ''maven'')
      else if exists_path w (p @ [''composer.json'']) then (''php'', ''php'', ''composer'')
      else if exists_path w (p @ [''Gemfile'']) then (''ruby'', ''ruby'', ''bundler'')
      else (''generic'', ''unknown'', ''unknown''))"

text \<open>
  The project dictionary. The fields carry the dictionary keys with the prefix \<open>pi_\<close>; \<open>parent\<close>, \<open>depth\<close> and \<open>relative_path\<close> are set by
  the scanner after analysis; \<open>frameworks\<close> only by full analysis.
\<close>

record project_info =
  pi_name :: string
  pi_path :: string
  pi_type :: string
  pi_language :: string
  pi_framework :: string
  pi_frameworks :: "string list option"
  pi_status :: string
  pi_health :: int
  pi_size :: string
  pi_modified :: string
  pi_parent :: "string option"
  pi_depth :: "nat option"
  pi_relative_path :: "string option"

text \<open>\<open>_quick_analyze_project\<close>; \<open>None\<close> when the body raises.\<close>

definition quick_analyze_project :: "'a world_scheme \<Rightarrow> path \<Rightarrow> project_info option" where
  "quick_analyze_project w p =
     (case du w p of
        None \<Rightarrow> None
      | Some sz \<Rightarrow>
          if is_collection_folder w p then
            (case visible_subdirs w p of
               Inl e \<Rightarrow> None
             | Inr subdirs \<Rightarrow>
                 let project_count = length (filter (has_project_indicators w) subdirs)
                 in Some \<lparr> pi_name = name_of p, pi_path = path_str p,
                      pi_type = ''Collection ('' @ show_nat project_count @ '' projects)'',
                      pi_language = ''multi-language'', pi_framework = ''Collection'',
                      pi_frameworks = None, pi_status = ''Collection'', pi_health = 75,
                      pi_size = show_nat (length subdirs) @ '' items'', pi_modified = ''Unknown'',
                      pi_parent = None, pi_depth = None, pi_relative_path = None \<rparr>)
          else
            (case quick_detect_project_type w p of
               (project_type, lang, fw) \<Rightarrow>
                 Some \<lparr> pi_name = name_of p, pi_path = path_str p, pi_type = project_type,
                      pi_language = lang, pi_framework = fw, pi_frameworks = None,
                      pi_status = ''Unknown'', pi_health = 50, pi_size = sz, pi_modified = ''Unknown'',
                      pi_parent = None, pi_depth = None, pi_relative_path = None \<rparr>))"

section \<open>Status\<close>

text \<open>
  \<open>get_project_status\<close> (the same in both front ends): \<open>timedelta.days\<close> is the floor of
  the difference over one day; times are in microseconds.
\<close>

definition days_since_modified :: "int \<Rightarrow> nat \<Rightarrow> int" where
  "days_since_modified t_now t_mod = (t_now - int t_mod) div 86400000000"

definition status_of_days :: "int \<Rightarrow> string" where
  "status_of_days d =
     (if d < 7 then ''Active'' else if d < 30 then ''Recent''
      else if d < 90 then ''Inactive'' else ''Stale'')"

definition get_project_status :: "'a world_scheme \<Rightarrow> path \<Rightarrow> error + string" where
  "get_project_status w p =
     (case node w p of
        None \<Rightarrow> Inl OSError
      | Some e \<Rightarrow> Inr (status_of_days (days_since_modified (now w) (mtime e))))"

section \<open>Health scorer\<close>

text \<open>\<open>any((project_path / n).exists() for n in names)\<close>; a name such as
  \<open>.github/workflows\<close> is a path of two components.\<close>

definition any_exists :: "'a world_scheme \<Rightarrow> path \<Rightarrow> path list \<Rightarrow> bool" where
  "any_exists w p rels = list_ex (\<lambda>r. exists_path w (p @ r)) rels"

definition files :: "string list \<Rightarrow> path list" where
  "files ns = map (\<lambda>n. [n]) ns"

definition check_python_health :: "world \<Rightarrow> path \<Rightarrow> int" where
  "check_python_health w p =
     (let score = 0;
          score = (if any_exists w p (files [''venv'', ''env'', ''.venv'', ''.env''])
                   then score + 2 else score);
          score = (if exists_path w (p @ [''requirements.txt'']) \<and> requirements_pinned (content w p)
                   then score + 2 else score);
          score = (if init_files (content w p) > 0 then score + 1 else score)
      in score)"

definition check_javascript_health :: "world \<Rightarrow> path \<Rightarrow> int" where
  "check_javascript_health w p =
     (let score = 0;
          score = (if exists_path w (p @ [''package.json'']) \<and> pkg_scripts (content w p)
                   then score + 2 else score);
          score = (if exists_path w (p @ [''package.json'']) \<and> pkg_dev_dependencies (content w p)
                   then score + 1 else score);
          score = (if exists_path w (p @ [''node_modules'']) then score + 1 else score)
      in score)"

definition check_rust_health :: "world \<Rightarrow> path \<Rightarrow> int" where
  "check_rust_health w p =
     (let score = 0;
          score = (if exists_path w (p @ [''Cargo.toml'']) \<and> cargo_version_authors (content w p)
                   then score + 2 else score);
          score = (if exists_path w (p @ [''Cargo.toml'']) \<and> cargo_dependencies (content w p)
                   then score + 1 else score);
          score = (if exists_path w (p @ [''Cargo.lock'']) then score + 1 else score)
      in score)"

definition check_go_health :: "world \<Rightarrow> path \<Rightarrow> int" where
  "check_go_health w p =
     (let score = 0;
          score = (if exists_path w (p @ [''go.mod'']) \<and> go_module_decl (content w p)
                   then score + 2 else score);
          score = (if exists_path w (p @ [''go.sum'']) then score + 1 else score)
      in score)"

definition check_java_health :: "world \<Rightarrow> path \<Rightarrow> int" where
  "check_java_health w p =
     (let score = 0;
          score = (if exists_path w (p @ [''pom.xml'']) \<or> exists_path w (p @ [''build.gradle''])
                   then score + 2 else score);
          score = (if java_files (content w p) > 0 then score + 1 else score)
      in score)"

definition check_bash_health :: "world \<Rightarrow> path \<Rightarrow> int" where
  "check_bash_health w p =
     (let score = 0;
          bash_files = glob_ext w p ''.sh'';
          score = (if bash_files \<noteq> [] then score + 2 else score);
          score = (if sh_proper_shebang (content w p) then score + 2 else score);
          score = (if sh_error_handling (content w p) then score + 2 else score);
          score = (if sh_logging (content w p) then score + 1 else score);
          score = (if any_exists w p (files [''config.sh'', ''settings.sh'', ''.env'', ''config.json''])
                   then score + 1 else score);
          score = (if sh_documented_scripts (content w p) > 0 then score + 1 else score);
          score = (if any_exists w p
                        (files [''install.sh'', ''setup.sh'', ''deploy.sh'', ''build.sh'', ''test.sh''])
                   then score + 2 else score)
      in score)"

text \<open>\<open>_check_cross_language_integration\<close>: at least three of six signals.\<close>

definition check_cross_language_integration :: "world \<Rightarrow> path \<Rightarrow> string list \<Rightarrow> bool" where
  "check_cross_language_integration w p langs =
     (let integration_score = (0::int);
          integration_score =
            (if any_exists w p (files [''Makefile'', ''build.sh'', ''build.py'', ''build.js'', ''build.ps1''])
             then integration_score + 1 else integration_score);
          integration_score =
            (if any_exists w p (files [''Dockerfile'', ''docker-compose.yml'', ''.dockerignore''])
             then integration_score + 1 else integration_score);
          integration_score =
            (if any_exists w p
                  [[''.github'', ''workflows''], [''.gitlab-ci.yml''], [''azure-pipelines.yml''],
                   [''Jenkinsfile'']]
             then integration_score + 1 else integration_score);
          integration_score =
            (if exists_path w (p @ [''README.md'']) \<and> readme_multi_lang (content w p)
             then integration_score + 1 else integration_score);
          integration_score =
            (if any_exists w p
                  (files [''src'', ''lib'', ''app'', ''frontend'', ''backend'', ''api'', ''scripts''])
             then integration_score + 1 else integration_score);
          integration_score =
            (if any_exists w p
                  (files [''config.json'', ''config.yaml'', ''config.yml'', ''settings.json''])
             then integration_score + 1 else integration_score)
      in integration_score \<ge> 3)"

text \<open>The language dispatch of the scorer: the \<open>if/elif\<close> chain over the language tag.\<close>

definition language_health :: "world \<Rightarrow> path \<Rightarrow> string \<Rightarrow> int" where
  "language_health w p lang =
     (if lang = ''python'' then check_python_health w p
      else if lang = ''javascript'' then check_javascript_health w p
      else if lang = ''rust'' then check_rust_health w p
      else if lang = ''go'' then check_go_health w p
      else if lang = ''java'' then check_java_health w p
      else if lang = ''bash'' then check_bash_health w p
      else 0)"

definition dep_files :: "string \<Rightarrow> string list option" where
  "dep_files lang =
     (if lang = ''python'' then Some [''requirements.txt'', ''pyproject.toml'', ''setup.py'', ''Pipfile'']
      else if lang = ''javascript'' then Some [''package.json'', ''yarn.lock'', ''package-lock.json'']
      else if lang = ''rust'' then Some [''Cargo.toml'']
      else if lang = ''go'' then Some [''go.mod'', ''go.sum'']
      else if lang = ''java'' then Some [''pom.xml'', ''build.gradle'', ''gradle.properties'']
      else if lang = ''bash''
        then Some [''requirements.txt'', ''dependencies.txt'', ''packages.txt'', ''install.sh'']
      else None)"

definition missing_dep :: "world \<Rightarrow> path \<Rightarrow> string \<Rightarrow> bool" where
  "missing_dep w p lang =
     (case dep_files lang of None \<Rightarrow> False | Some ds \<Rightarrow> \<not> any_exists w p (files ds))"

text \<open>
  \<open>calculate_health_score\<close> of the graphical front end, rule by rule in the order of the
  source. \<open>has_test_files\<close> is \<open>any(project_path.glob(pattern) for pattern in test_files)\<close>:
  each element is a generator object, which is true, so the value is \<open>True\<close>.
\<close>

definition calculate_health_score :: "world \<Rightarrow> path \<Rightarrow> string \<Rightarrow> int" where
  "calculate_health_score w p lang =
     (let score = 100;
          langs = languages (content w p);
          is_multi_language = (length langs > 1);
          score = (if \<not> exists_path w (p @ [''README.md'']) then score - 10 else score);
          score = (if \<not> exists_path w (p @ [''.gitignore'']) then score - 5 else score);
          has_tests = any_exists w p
                        (files [''tests'', ''test'', ''__tests__'', ''spec'', ''test_'', ''tests_'']);
          has_test_files = True;
          score = (if \<not> has_tests \<and> \<not> has_test_files then score - 15 else score);
          has_docs = any_exists w p (files [''docs'', ''documentation'', ''doc'', ''wiki'']);
          has_doc_files = any_exists w p
                        (files [''CHANGELOG.md'', ''CONTRIBUTING.md'', ''LICENSE'', ''LICENSE.txt'',
                                ''LICENSE.md'']);
          score = (if \<not> has_docs \<and> \<not> has_doc_files then score - 5 else score);
          score = (if \<not> exists_path w (p @ [''.git'']) then score - 10
                   else if exists_path w (p @ [''.git'', ''hooks''])
                           \<and> glob_ext w (p @ [''.git'', ''hooks'']) [] \<noteq> []
                        then score + 2 else score);
          has_security = any_exists w p (files [''.env.example'', ''security.md'', ''SECURITY.md'']);
          score = (if \<not> has_security then score - 3 else score);
          score = (if has_secrets (content w p) then score - 5 else score);
          score = (if is_multi_language
                   then (if check_cross_language_integration w p langs then score + 5 + 3
                         else score + 5)
                   else score);
          score = (if is_multi_language
                   then fold (\<lambda>l s. s + language_health w p l div 2) langs score
                   else score + language_health w p lang);
          score = (if is_multi_language
                   then (let missing_deps = int (length (filter (missing_dep w p) langs))
                         in if missing_deps > 0 then score - missing_deps * 4 else score)
                   else (if missing_dep w p lang then score - 8 else score));
          score = (if any_exists w p
                        (files [''.editorconfig'', ''.gitattributes'', ''docker-compose.yml'',
                                ''Dockerfile''])
                   then score + 3 else score);
          score = (if any_exists w p
                        (files [''.eslintrc'', ''.eslintrc.js'', ''.eslintrc.json'', ''.pylintrc'',
                                ''pyproject.toml''])
                   then score + 2 else score);
          score = (if any_exists w p
                        (files [''.github'', ''.gitlab-ci'', ''.circleci'', ''.travis'', ''.jenkins''])
                   then score + 5 else score);
          score = (if any_exists w p (files [''src'', ''lib'', ''app'', ''source''])
                   then score + 2 else score);
          score = (if any_exists w p (files [''Makefile'', ''CMakeLists.txt'', ''build.sh'', ''compile.sh''])
                   then score + 2 else score);
          score = (if recent_files (content w p) \<ge> 3 then score + 2 else score);
          score = (case total_files (content w p) of
                     None \<Rightarrow> score
                   | Some n \<Rightarrow> if n < 3 then score - 5 else if n > 1000 then score - 2 else score)
      in max 0 (min 100 score))"

text \<open>\<open>calculate_health_score\<close> of the command line front end (\<open>project_manager.py\<close>).\<close>

definition cli_calculate_health_score :: "world \<Rightarrow> path \<Rightarrow> string \<Rightarrow> int" where
  "cli_calculate_health_score w p lang =
     (let score = 100;
          score = (if \<not> exists_path w (p @ [''README.md'']) then score - 10 else score);
          score = (if \<not> exists_path w (p @ [''.gitignore'']) then score - 5 else score);
          has_tests = any_exists w p (files [''tests'', ''test'', ''__tests__'', ''spec'']);
          score = (if \<not> has_tests then score - 15 else score);
          has_docs = any_exists w p (files [''docs'', ''documentation'', ''doc'']);
          score = (if \<not> has_docs then score - 5 else score);
          score = (if large_files (content w p) \<noteq> [] then score - 10 else score)
      in max 0 score)"

section \<open>Full analysis\<close>

definition framework_priority :: "string list" where
  "framework_priority =
     [''nextjs'', ''nuxt'', ''gatsby'', ''remix'', ''astro'', ''svelte'', ''angular'', ''react'', ''vue'']"

text \<open>\<open>analyze_project\<close> of the graphical front end; \<open>None\<close> when the body raises
  (\<open>stat\<close> on a missing path, or the size walk).\<close>

definition analyze_project :: "world \<Rightarrow> path \<Rightarrow> project_info option" where
  "analyze_project w p =
     (case detect_project_type w p of
        (project_type, lang, fw) \<Rightarrow>
          let js_frameworks = detect_js_frameworks w p;
              refine = (js_frameworks \<noteq> [] \<and> lang \<in> set [''javascript'', ''typescript'']);
              fw = (if refine
                    then (case find (\<lambda>pf. pf \<in> set js_frameworks) framework_priority of
                            Some pf \<Rightarrow> pf | None \<Rightarrow> fw)
                    else fw);
              project_type =
                (if refine then
                   (if fw \<in> set [''nextjs'', ''nuxt'', ''gatsby'', ''remix'', ''astro''] then ''fullstack''
                    else if fw \<in> set [''react'', ''vue'', ''angular'', ''svelte''] then ''frontend''
                    else if fw \<in> set [''express'', ''nestjs'', ''fastify'', ''koa''] then ''backend''
                    else project_type)
                 else project_type)
          in (case node w p of
                None \<Rightarrow> None
              | Some e \<Rightarrow>
                  (case du w p of
                     None \<Rightarrow> None
                   | Some sz \<Rightarrow>
                       (case get_project_status w p of
                          Inl err \<Rightarrow> None
                        | Inr st \<Rightarrow>
                            Some \<lparr> pi_name = name_of p, pi_path = path_str p, pi_type = project_type,
                                   pi_language = lang, pi_framework = fw,
                                   pi_frameworks = Some js_frameworks, pi_status = st,
                                   pi_health = calculate_health_score w p lang, pi_size = sz,
                                   pi_modified = strftime w (mtime e),
                                   pi_parent = None, pi_depth = None, pi_relative_path = None \<rparr>))))"

section \<open>Fingerprint cache\<close>

text \<open>
  The cache key is the MD5 digest of a string. The digest is modelled by a constructor:
  equal strings give equal digests, and different strings are taken to give different
  digests (no collisions).
\<close>

datatype digest = MD5 string

definition key_files :: "string list" where
  "key_files =
     [''package.json'', ''requirements.txt'', ''Cargo.toml'', ''go.mod'', ''pom.xml'',
      ''composer.json'', ''Gemfile'', ''setup.py'', ''pyproject.toml'', ''README.md'']"

text \<open>The loop of \<open>_get_cache_key\<close> over the key files, starting from 0.\<close>

definition max_key_mtime :: "'a world_scheme \<Rightarrow> path \<Rightarrow> nat" where
  "max_key_mtime w p =
     fold (\<lambda>key_file max_mtime.
             case node w (p @ [key_file]) of
               Some e \<Rightarrow> max max_mtime (mtime e)
             | None \<Rightarrow> max_mtime) key_files 0"

text \<open>What one key file contributes to that maximum: its time, or nothing (0) when it
  does not exist.\<close>

definition key_val :: "'a world_scheme \<Rightarrow> path \<Rightarrow> string \<Rightarrow> nat" where
  "key_val w p k = (case node w (p @ [k]) of Some e \<Rightarrow> mtime e | None \<Rightarrow> 0)"

text \<open>\<open>_get_cache_key\<close>: when no key file gave a time, the directory's own is taken; when
  that \<open>stat\<close> raises, the key is the digest of the path alone.\<close>

definition key_mtime :: "'a world_scheme \<Rightarrow> path \<Rightarrow> error + nat" where
  "key_mtime w p =
     (let max_mtime = max_key_mtime w p
      in if max_mtime = 0 then
           (case node w p of
              None \<Rightarrow> Inl OSError
            | Some e \<Rightarrow> Inr (mtime e))
         else Inr max_mtime)"

definition get_cache_key :: "'a world_scheme \<Rightarrow> path \<Rightarrow> digest" where
  "get_cache_key w p =
     (case key_mtime w p of
        Inr max_mtime \<Rightarrow> MD5 (path_str p @ ''_'' @ show_nat max_mtime)
      | Inl e \<Rightarrow> MD5 (path_str p))"

type_synonym cache = "digest \<rightharpoonup> project_info"

definition get_cached_project :: "'a world_scheme \<Rightarrow> path \<Rightarrow> cache \<Rightarrow> project_info option" where
  "get_cached_project w p c =
     (let cache_key = get_cache_key w p
      in case c cache_key of
           None \<Rightarrow> None
         | Some cached_data \<Rightarrow>
             if exists_path w p then
               (let current_key = get_cache_key w p
                in if current_key = cache_key then Some cached_data else None)
             else None)"

definition cache_project :: "'a world_scheme \<Rightarrow> path \<Rightarrow> project_info \<Rightarrow> cache \<Rightarrow> cache" where
  "cache_project w p project_data c = c(get_cache_key w p \<mapsto> project_data)"

section \<open>Scanner\<close>

definition obvious_non_projects :: "string list" where
  "obvious_non_projects =
     [''node_modules'', ''venv'', ''env'', ''.venv'', ''.env'', ''__pycache__'',
      ''target'', ''build'', ''dist'', ''out'', ''bin'', ''obj'', ''classes'',
      ''.git'', ''.svn'', ''.hg'', ''.bzr'', ''.vscode'', ''.idea'', ''.vs'',
      ''tmp'', ''temp'', ''cache'', ''.cache'', ''logs'', ''.logs'',
      ''.next'', ''.nuxt'', ''.gatsby'', ''.svelte-kit'', ''.astro'',
      ''public'', ''static'', ''assets'', ''media'', ''docs'', ''documentation'']"

definition is_obvious_non_project :: "path \<Rightarrow> bool" where
  "is_obvious_non_project p = (lower (name_of p) \<in> set obvious_non_projects)"

text \<open>\<open>_is_likely_project_directory\<close>.\<close>

definition is_likely_project_directory :: "'a world_scheme \<Rightarrow> path \<Rightarrow> bool" where
  "is_likely_project_directory w p =
     (if any_exists w p
           (files [''package.json'', ''requirements.txt'', ''Cargo.toml'', ''go.mod'', ''pom.xml'',
                   ''composer.json'', ''Gemfile'', ''setup.py'', ''README.md''])
      then True
      else if any_exists w p (files [''src'', ''lib'', ''app'']) then True
      else if list_ex (\<lambda>ext. glob_ext w p ext \<noteq> []) [''.py'', ''.js'', ''.ts'', ''.java'', ''.cpp'', ''.c'']
        then True
      else if is_collection_folder w p then True
      else False)"

text \<open>
  \<open>_detect_parent_project\<close>. With an explicit parent the answer is that parent. Otherwise
  the loop walks up from \<open>project_path.parent\<close>; the parent of the root is the root, so
  from there the loop cannot make progress: the result \<open>None\<close> stands for a call that
  does not return, \<open>Some r\<close> for one that returns \<open>r\<close>.
\<close>

fun walk_up :: "'a world_scheme \<Rightarrow> path \<Rightarrow> path \<Rightarrow> string option option" where
  "walk_up w base_path current_path =
     (if current_path \<noteq> base_path \<and> current_path \<noteq> butlast base_path then
        (if is_likely_project_directory w current_path then Some (Some (path_str current_path))
         else if current_path = [] then None
         else walk_up w base_path (butlast current_path))
      else Some None)"

declare walk_up.simps [simp del]

definition detect_parent_project ::
  "'a world_scheme \<Rightarrow> path \<Rightarrow> path \<Rightarrow> path option \<Rightarrow> string option option" where
  "detect_parent_project w project_path base_path explicit_parent =
     (case explicit_parent of
        Some e \<Rightarrow> Some (Some (path_str e))
      | None \<Rightarrow> walk_up w base_path (butlast project_path))"

definition subproject_indicators :: "string list" where
  "subproject_indicators =
     [''packages'', ''apps'', ''libs'', ''services'', ''modules'', ''components'',
      ''src'', ''lib'', ''app'', ''client'', ''server'', ''frontend'', ''backend'']"

definition workspace_files :: "string list" where
  "workspace_files = [''package.json'', ''lerna.json'', ''nx.json'', ''rush.json'']"

text \<open>
  \<open>_might_contain_subprojects\<close>. The loop over the indicator names lists each indicator
  that is a directory; \<open>iterdir\<close> may raise there, which leaves the function.
\<close>

definition project_like_item :: "'a world_scheme \<Rightarrow> path \<Rightarrow> bool" where
  "project_like_item w item =
     (is_dir w item \<and> \<not> startswith (name_of item) ''.'' \<and> has_project_indicators w item)"

fun scan_indicators :: "'a world_scheme \<Rightarrow> path \<Rightarrow> string list \<Rightarrow> error + bool" where
  "scan_indicators w p [] = Inr False"
| "scan_indicators w p (indicator # rest) =
     (if exists_path w (p @ [indicator]) \<and> is_dir w (p @ [indicator]) then
        (case iterdir w (p @ [indicator]) of
           Inl e \<Rightarrow> Inl e
         | Inr items \<Rightarrow>
             if list_ex (project_like_item w) items then Inr True
             else scan_indicators w p rest)
      else scan_indicators w p rest)"

definition might_contain_subprojects :: "'a world_scheme \<Rightarrow> path \<Rightarrow> error + bool" where
  "might_contain_subprojects w p =
     (if is_collection_folder w p then Inr True
      else (case scan_indicators w p subproject_indicators of
              Inl e \<Rightarrow> Inl e
            | Inr True \<Rightarrow> Inr True
            | Inr False \<Rightarrow>
                if list_ex (\<lambda>f. exists_path w (p @ [f])) workspace_files then Inr True
                else Inr False))"

text \<open>\<open>project_path.relative_to(projects_dir)\<close> and its string.\<close>

definition relative_to :: "path \<Rightarrow> path \<Rightarrow> error + path" where
  "relative_to p root =
     (if take (length root) p = root then Inr (drop (length root) p) else Inl ValueError)"

definition rel_str :: "path \<Rightarrow> string" where
  "rel_str p = (if p = [] then ''.'' else tl (concat (map (\<lambda>n. CHR ''/'' # n) p)))"

text \<open>
  The scanner's configuration and state. \<open>projects\<close>, \<open>hierarchical_projects\<close> and
  \<open>background_queue\<close> are the attributes of the application object, \<open>cache\<close> is the
  dictionary passed along and changed in place. \<open>trace\<close> is the trace of the run, one event
  where the code prints a message or counts a directory; nothing reads it.
\<close>

record config =
  projects_dir :: path
  background_processing :: bool

datatype event =
    Examined nat path
  | CacheHit path
  | CacheMiss path
  | Recursing path

record scanner =
  projects :: "project_info list"
  hierarchical_projects :: "string \<rightharpoonup> project_info list"
  background_queue :: "path list"
  cache :: cache
  trace :: "event list"

definition add_child :: "string \<Rightarrow> project_info \<Rightarrow> (string \<rightharpoonup> project_info list) \<Rightarrow> (string \<rightharpoonup> project_info list)" where
  "add_child parent_key info h =
     (case h parent_key of
        None \<Rightarrow> h(parent_key \<mapsto> [info])
      | Some children \<Rightarrow> h(parent_key \<mapsto> children @ [info]))"

text \<open>
  The body of the loop of \<open>_load_hierarchical_projects\<close> for one directory, after the
  limit check. \<open>recurse\<close> is the recursive call at \<open>depth + 1\<close>. The dictionary
  \<open>project_info\<close> is the object held by the cache, so the keys set after the lookup
  are set in the cached value as well. The hit and miss counters are arguments passed
  by value and never read; they are left out.
\<close>

definition visit_project ::
  "(path \<Rightarrow> scanner \<Rightarrow> scanner) \<Rightarrow> world \<Rightarrow> config \<Rightarrow> path \<Rightarrow> path option \<Rightarrow> nat \<Rightarrow> path
     \<Rightarrow> scanner \<Rightarrow> scanner" where
  "visit_project recurse w cfg base_path parent_path depth project_path st =
     (if is_obvious_non_project project_path then st
      else if \<not> is_likely_project_directory w project_path then st
      else
        let cached = get_cached_project w project_path (cache st);
            (project_info, st) =
              (case cached of
                 Some info \<Rightarrow> (Some info, st\<lparr>trace := trace st @ [CacheHit project_path]\<rparr>)
               | None \<Rightarrow>
                   let st = st\<lparr>trace := trace st @ [CacheMiss project_path]\<rparr>;
                       info = quick_analyze_project w project_path;
                       st = (if background_processing cfg
                             then st\<lparr>background_queue := background_queue st @ [project_path]\<rparr>
                             else st);
                       st = (case info of
                               Some i \<Rightarrow> st\<lparr>cache := cache_project w project_path i (cache st)\<rparr>
                             | None \<Rightarrow> st)
                   in (info, st))
        in (case project_info of
              None \<Rightarrow> st
            | Some info \<Rightarrow>
                (case detect_parent_project w project_path base_path parent_path of
                   None \<Rightarrow> st
                 | Some detected_parent \<Rightarrow>
                     (let key = get_cache_key w project_path;
                          info = info\<lparr>pi_parent := detected_parent, pi_depth := Some depth,
                                      pi_path := path_str project_path\<rparr>;
                          st = st\<lparr>cache := (cache st)(key \<mapsto> info)\<rparr>
                      in (case relative_to project_path (projects_dir cfg) of
                            Inl e \<Rightarrow> st
                          | Inr rel \<Rightarrow>
                              (let info = info\<lparr>pi_relative_path := Some (rel_str rel)\<rparr>;
                                   st = st\<lparr>cache := (cache st)(key \<mapsto> info),
                                           projects := projects st @ [info]\<rparr>;
                                   st = (case detected_parent of
                                           None \<Rightarrow> st
                                         | Some parent_key \<Rightarrow>
                                             st\<lparr>hierarchical_projects :=
                                                  add_child parent_key info (hierarchical_projects st)\<rparr>)
                               in (case might_contain_subprojects w project_path of
                                     Inl e \<Rightarrow> st
                                   | Inr False \<Rightarrow> st
                                   | Inr True \<Rightarrow>
                                       recurse project_path
                                         (st\<lparr>trace := trace st @ [Recursing project_path]\<rparr>))))))))"

text \<open>
  The \<open>for\<close> loop with its counter: once \<open>dirs_scanned\<close> has reached the limit the loop
  breaks, so the remaining directories leave the state unchanged.
\<close>

definition scan_dirs ::
  "nat \<Rightarrow> nat \<Rightarrow> (path \<Rightarrow> scanner \<Rightarrow> scanner) \<Rightarrow> path list \<Rightarrow> scanner \<Rightarrow> scanner" where
  "scan_dirs max_dirs_per_level depth body dirs st =
     snd (fold (\<lambda>project_path (dirs_scanned, st).
                  if dirs_scanned \<ge> max_dirs_per_level then (dirs_scanned, st)
                  else (dirs_scanned + 1,
                        body project_path (st\<lparr>trace := trace st @ [Examined depth project_path]\<rparr>)))
               dirs (0, st))"

definition max_dirs_per_level :: "nat \<Rightarrow> nat" where
  "max_dirs_per_level depth = (if depth = 0 then 15 else if depth = 1 then 8 else 5)"

text \<open>\<open>_load_hierarchical_projects\<close>. A directory that cannot be listed ends the call.\<close>

function load_hierarchical_projects ::
  "world \<Rightarrow> config \<Rightarrow> path \<Rightarrow> path option \<Rightarrow> nat \<Rightarrow> scanner \<Rightarrow> scanner" where
  "load_hierarchical_projects w cfg base_path parent_path depth st =
     (if depth > 2 then st
      else
        (case visible_subdirs w base_path of
           Inl e \<Rightarrow> st
         | Inr dirs \<Rightarrow>
             scan_dirs (max_dirs_per_level depth) depth
               (visit_project
                  (\<lambda>project_path st'.
                     load_hierarchical_projects w cfg project_path (Some project_path) (depth + 1) st')
                  w cfg base_path parent_path depth)
               (sort_key (\<lambda>d. lower (name_of d)) dirs) st))"
  by pat_completeness auto
termination
  by (relation "measure (\<lambda>(w, cfg, base_path, parent_path, depth, st). 3 - depth)") auto

declare load_hierarchical_projects.simps [simp del]

text \<open>\<open>load_projects\<close>: a scan of the configured directory with the cache as loaded,
  on fresh project lists; the background queue is kept from before.\<close>

definition load_projects :: "world \<Rightarrow> config \<Rightarrow> cache \<Rightarrow> path list \<Rightarrow> scanner" where
  "load_projects w cfg c queue =
     (if \<not> exists_path w (projects_dir cfg)
      then \<lparr> projects = [], hierarchical_projects = Map.empty, background_queue = queue,
             cache = c, trace = [] \<rparr>
      else load_hierarchical_projects w cfg (projects_dir cfg) None 0
             \<lparr> projects = [], hierarchical_projects = Map.empty, background_queue = queue,
               cache = c, trace = [] \<rparr>)"

section \<open>Reading the scanner's run\<close>

text \<open>
  The loop body up to the decision to recurse: the state it leaves and whether the
  recursive call follows. \<open>visit_project\<close> is this part followed by the call (lemma
  \<open>visit_project_local\<close>).
\<close>

definition visit_local ::
  "world \<Rightarrow> config \<Rightarrow> path \<Rightarrow> path option \<Rightarrow> nat \<Rightarrow> path \<Rightarrow> scanner \<Rightarrow> scanner \<times> bool" where
  "visit_local w cfg base_path parent_path depth project_path st =
     (if is_obvious_non_project project_path then (st, False)
      else if \<not> is_likely_project_directory w project_path then (st, False)
      else
        let cached = get_cached_project w project_path (cache st);
            (project_info, st) =
              (case cached of
                 Some info \<Rightarrow> (Some info, st\<lparr>trace := trace st @ [CacheHit project_path]\<rparr>)
               | None \<Rightarrow>
                   let st = st\<lparr>trace := trace st @ [CacheMiss project_path]\<rparr>;
                       info = quick_analyze_project w project_path;
                       st = (if background_processing cfg
                             then st\<lparr>background_queue := background_queue st @ [project_path]\<rparr>
                             else st);
                       st = (case info of
                               Some i \<Rightarrow> st\<lparr>cache := cache_project w project_path i (cache st)\<rparr>
                             | None \<Rightarrow> st)
                   in (info, st))
        in (case project_info of
              None \<Rightarrow> (st, False)
            | Some info \<Rightarrow>
                (case detect_parent_project w project_path base_path parent_path of
                   None \<Rightarrow> (st, False)
                 | Some detected_parent \<Rightarrow>
                     (let key = get_cache_key w project_path;
                          info = info\<lparr>pi_parent := detected_parent, pi_depth := Some depth,
                                      pi_path := path_str project_path\<rparr>;
                          st = st\<lparr>cache := (cache st)(key \<mapsto> info)\<rparr>
                      in (case relative_to project_path (projects_dir cfg) of
                            Inl e \<Rightarrow> (st, False)
                          | Inr rel \<Rightarrow>
                              (let info = info\<lparr>pi_relative_path := Some (rel_str rel)\<rparr>;
                                   st = st\<lparr>cache := (cache st)(key \<mapsto> info),
                                           projects := projects st @ [info]\<rparr>;
                                   st = (case detected_parent of
                                           None \<Rightarrow> st
                                         | Some parent_key \<Rightarrow>
                                             st\<lparr>hierarchical_projects :=
                                                  add_child parent_key info (hierarchical_projects st)\<rparr>)
                               in (case might_contain_subprojects w project_path of
                                     Inl e \<Rightarrow> (st, False)
                                   | Inr False \<Rightarrow> (st, False)
                                   | Inr True \<Rightarrow> (st, True))))))))"

text \<open>The directories whose lookup missed, and the number of directories examined at a
  given depth, read from a trace.\<close>

fun misses :: "event list \<Rightarrow> path list" where
  "misses [] = []"
| "misses (CacheMiss p # es) = p # misses es"
| "misses (e # es) = misses es"

fun examined_at :: "nat \<Rightarrow> event list \<Rightarrow> nat" where
  "examined_at k [] = 0"
| "examined_at k (Examined d p # es) = (if d = k then 1 else 0) + examined_at k es"
| "examined_at k (e # es) = examined_at k es"

text \<open>The number of directories at depth \<open>k\<close> that a call at depth \<open>d\<close> can reach:
  the product of the limits of the levels from \<open>d\<close> to \<open>k\<close>.\<close>

definition fan_out_bound :: "nat \<Rightarrow> nat \<Rightarrow> nat" where
  "fan_out_bound d k =
     (if 2 < k \<or> k < d then 0
      else if d = k then max_dirs_per_level k
      else if d + 1 = k then max_dirs_per_level d * max_dirs_per_level k
      else max_dirs_per_level 0 * max_dirs_per_level 1 * max_dirs_per_level 2)"

text \<open>The invariant behind the treatment of hidden directories: every record belongs to
  an examined directory, and every examined directory is a visible directory.\<close>

definition visible_records :: "world \<Rightarrow> scanner \<Rightarrow> bool" where
  "visible_records w st \<longleftrightarrow>
     (\<forall>r \<in> set (projects st). \<exists>d pp. Examined d pp \<in> set (trace st) \<and> pi_path r = path_str pp)
     \<and> (\<forall>d pp. Examined d pp \<in> set (trace st) \<longrightarrow> is_dir w pp \<and> \<not> startswith (name_of pp) ''.'')"

text \<open>The directories examined, in order, and the bound on their number for a call at
  depth \<open>d\<close>.\<close>

fun examined :: "event list \<Rightarrow> path list" where
  "examined [] = []"
| "examined (Examined d p # es) = p # examined es"
| "examined (e # es) = examined es"

definition total_bound :: "nat \<Rightarrow> nat" where
  "total_bound d =
     (if 2 < d then 0
      else if d = 2 then max_dirs_per_level 2
      else if d = 1 then max_dirs_per_level 1 * (1 + max_dirs_per_level 2)
      else max_dirs_per_level 0 * (1 + max_dirs_per_level 1 * (1 + max_dirs_per_level 2)))"

text \<open>
  Two file systems that hold the same tree and differ only in the order in which
  directories enumerate their entries; and the condition that no two visible
  subdirectories of a directory have names that are equal up to case.
\<close>

fun reordered :: "entry option \<Rightarrow> entry option \<Rightarrow> bool" where
  "reordered (Some (Dir t r ns)) (Some (Dir t' r' ns')) = (t = t' \<and> r = r' \<and> mset ns = mset ns')"
| "reordered a b = (a = b)"

definition same_tree :: "world \<Rightarrow> world \<Rightarrow> bool" where
  "same_tree w w' \<longleftrightarrow>
     (\<forall>p. reordered (node w p) (node w' p))
     \<and> du w' = du w \<and> now w' = now w \<and> strftime w' = strftime w
     \<and> detect_project_type w' = detect_project_type w
     \<and> detect_js_frameworks w' = detect_js_frameworks w \<and> content w' = content w"

definition case_distinct :: "world \<Rightarrow> bool" where
  "case_distinct w \<longleftrightarrow>
     (\<forall>p ds. visible_subdirs w p = Inr ds \<longrightarrow> inj_on (\<lambda>d. lower (name_of d)) (set ds))"

text \<open>The directories examined at depth \<open>k\<close>, in order.\<close>

fun examined_on :: "nat \<Rightarrow> event list \<Rightarrow> path list" where
  "examined_on k [] = []"
| "examined_on k (Examined d p # es) = (if d = k then p # examined_on k es else examined_on k es)"
| "examined_on k (e # es) = examined_on k es"

text \<open>What a scan reports: the types and sizes of its records, and the directories its
  loop examined.\<close>

definition scan_summary :: "scanner \<Rightarrow> string list \<times> string list \<times> path list" where
  "scan_summary s = (map pi_type (projects s), map pi_size (projects s), examined (trace s))"

section \<open>Changes of the file system between scans\<close>



section \<open>Example directories\<close>

definition obs0 :: content_obs where
  "obs0 = \<lparr> languages = [], has_secrets = False, readme_multi_lang = False,
     requirements_pinned = False, init_files = 0, pkg_scripts = False,
     pkg_dev_dependencies = False, cargo_version_authors = False, cargo_dependencies = False,
     go_module_decl = False, java_files = 0, sh_proper_shebang = False,
     sh_error_handling = False, sh_logging = False, sh_documented_scripts = 0,
     recent_files = 0, total_files = Some 0, large_files = [] \<rparr>"

definition mk_world :: "(path \<times> entry) list \<Rightarrow> world" where
  "mk_world es = \<lparr> node = map_of es, du = (\<lambda>p. Some ''0.0 B''), now = 8640000000000,
     strftime = show_nat, detect_project_type = (\<lambda>p. (''unknown'', ''unknown'', ''unknown'')),
     detect_js_frameworks = (\<lambda>p. []), content = (\<lambda>p. obs0) \<rparr>"

text \<open>An empty directory.\<close>

definition w_empty :: world where
  "w_empty = mk_world [([''e''], Dir 10 True [])]"


text \<open>Three subdirectories, two of them with a README, and no manifest at the top.\<close>

definition w_coll :: world where
  "w_coll = mk_world
     [([''c''], Dir 10 True [''x'', ''y'', ''z'']),
      ([''c'', ''x''], Dir 10 True [''README.md'']),
      ([''c'', ''y''], Dir 10 True [''README.md'']),
      ([''c'', ''z''], Dir 10 True []),
      ([''c'', ''x'', ''README.md''], File 10),
      ([''c'', ''y'', ''README.md''], File 10)]"

text \<open>A directory \<open>/r/m\<close> with its own \<open>requirements.txt\<close> and three subdirectories
  that each hold a README.\<close>

definition w_manifest_coll :: world where
  "w_manifest_coll = mk_world
     [([''r''], Dir 10 True [''m'']),
      ([''r'', ''m''], Dir 10 True [''requirements.txt'', ''x'', ''y'', ''z'']),
      ([''r'', ''m'', ''requirements.txt''], File 10),
      ([''r'', ''m'', ''x''], Dir 10 True [''README.md'']),
      ([''r'', ''m'', ''y''], Dir 10 True [''README.md'']),
      ([''r'', ''m'', ''z''], Dir 10 True [''README.md'']),
      ([''r'', ''m'', ''x'', ''README.md''], File 10),
      ([''r'', ''m'', ''y'', ''README.md''], File 10),
      ([''r'', ''m'', ''z'', ''README.md''], File 10)]"

text \<open>A plain project \<open>/r/n\<close>: a \<open>go.mod\<close> (time 100) and a README (time 200).\<close>

definition w_plain :: world where
  "w_plain = mk_world
     [([''r''], Dir 10 True [''n'']),
      ([''r'', ''n''], Dir 10 True [''go.mod'', ''README.md'']),
      ([''r'', ''n'', ''go.mod''], File 100),
      ([''r'', ''n'', ''README.md''], File 200)]"

definition cfg_r :: "bool \<Rightarrow> config" where
  "cfg_r bg = \<lparr> projects_dir = [''r''], background_processing = bg \<rparr>"

text \<open>A hidden and a visible directory, each with a \<open>package.json\<close>.\<close>

definition w_hidden :: world where
  "w_hidden = mk_world
     [([''r''], Dir 10 True [''.h'', ''v'']),
      ([''r'', ''.h''], Dir 10 True [''package.json'']),
      ([''r'', ''.h'', ''package.json''], File 7),
      ([''r'', ''v''], Dir 10 True [''package.json'']),
      ([''r'', ''v'', ''package.json''], File 7)]"

text \<open>An endless tree: every path is a directory that lists one subdirectory \<open>a\<close>.\<close>

definition w_endless :: world where
  "w_endless = \<lparr> node = (\<lambda>p. Some (Dir 10 True [''a''])),
     du = (\<lambda>p. Some ''0.0 B''), now = 0, strftime = show_nat,
     detect_project_type = (\<lambda>p. (''unknown'', ''unknown'', ''unknown'')),
     detect_js_frameworks = (\<lambda>p. []), content = (\<lambda>p. obs0) \<rparr>"

text \<open>A project \<open>/r/s\<close> with one manifest and a \<open>src\<close> directory that holds a directory
  with a README; a project \<open>/r/k\<close> that holds a \<open>package.json\<close> and nothing else.\<close>

definition w_src :: world where
  "w_src = mk_world
     [([''r''], Dir 10 True [''s'']),
      ([''r'', ''s''], Dir 10 True [''requirements.txt'', ''src'']),
      ([''r'', ''s'', ''requirements.txt''], File 10),
      ([''r'', ''s'', ''src''], Dir 10 True [''core'']),
      ([''r'', ''s'', ''src'', ''core''], Dir 10 True [''README.md'']),
      ([''r'', ''s'', ''src'', ''core'', ''README.md''], File 10)]"

definition w_pkg :: world where
  "w_pkg = mk_world
     [([''r''], Dir 10 True [''k'']),
      ([''r'', ''k''], Dir 10 True [''package.json'']),
      ([''r'', ''k'', ''package.json''], File 10)]"

text \<open>A root \<open>/r\<close> that enumerates the given names, each a directory with a README.\<close>

definition w_two :: "string list \<Rightarrow> world" where
  "w_two ns = mk_world
     (([''r''], Dir 10 True ns)
      # concat (map (\<lambda>n. [([''r'', n], Dir 10 True [''README.md'']),
                           ([''r'', n, ''README.md''], File 10)]) ns))"

text \<open>A directory \<open>/r/d\<close> with sixteen subdirectories; the last eight hold a README.\<close>

definition w_wide :: world where
  "w_wide = mk_world
     [([''r''], Dir 10 True [''d'']),
      ([''r'', ''d''], Dir 10 True
         [''z00'', ''z01'', ''z02'', ''z03'', ''z04'', ''z05'', ''z06'', ''z07'', ''z08'', ''z09'', ''z10'', ''z11'', ''z12'', ''z13'', ''z14'', ''z15'']),
      ([''r'', ''d'', ''z00''], Dir 10 True []),
      ([''r'', ''d'', ''z01''], Dir 10 True []),
      ([''r'', ''d'', ''z02''], Dir 10 True []),
      ([''r'', ''d'', ''z03''], Dir 10 True []),
      ([''r'', ''d'', ''z04''], Dir 10 True []),
      ([''r'', ''d'', ''z05''], Dir 10 True []),
      ([''r'', ''d'', ''z06''], Dir 10 True []),
      ([''r'', ''d'', ''z07''], Dir 10 True []),
      ([''r'', ''d'', ''z08''], Dir 10 True [''README.md'']),
      ([''r'', ''d'', ''z08'', ''README.md''], File 10),
      ([''r'', ''d'', ''z09''], Dir 10 True [''README.md'']),
      ([''r'', ''d'', ''z09'', ''README.md''], File 10),
      ([''r'', ''d'', ''z10''], Dir 10 True [''README.md'']),
      ([''r'', ''d'', ''z10'', ''README.md''], File 10),
      ([''r'', ''d'', ''z11''], Dir 10 True [''README.md'']),
      ([''r'', ''d'', ''z11'', ''README.md''], File 10),
      ([''r'', ''d'', ''z12''], Dir 10 True [''README.md'']),
      ([''r'', ''d'', ''z12'', ''README.md''], File 10),
      ([''r'', ''d'', ''z13''], Dir 10 True [''README.md'']),
      ([''r'', ''d'', ''z13'', ''README.md''], File 10),
      ([''r'', ''d'', ''z14''], Dir 10 True [''README.md'']),
      ([''r'', ''d'', ''z14'', ''README.md''], File 10),
      ([''r'', ''d'', ''z15''], Dir 10 True [''README.md'']),
      ([''r'', ''d'', ''z15'', ''README.md''], File 10)]"

section \<open>Properties of the health scorer and the classifier\<close>

lemma Let_all: "(\<And>x. P (f x)) \<Longrightarrow> P (Let a f)"
  by simp

lemma gui_score_range:
  "0 \<le> calculate_health_score w p lang \<and> calculate_health_score w p lang \<le> 100"
  unfolding calculate_health_score_def
  by (intro Let_all [where P = "\<lambda>v. 0 \<le> v \<and> v \<le> (100::int)"]) simp

lemma cli_score_range:
  "0 \<le> cli_calculate_health_score w p lang \<and> cli_calculate_health_score w p lang \<le> 100"
  unfolding cli_calculate_health_score_def Let_def by simp

text \<open>
  Claim C1. For every directory, language tag and observation of the file contents, the
  health score of either front end is an integer between 0 and 100; this includes a
  directory without any file.
\<close>

theorem health_score_range:
  "0 \<le> calculate_health_score w p lang \<and> calculate_health_score w p lang \<le> 100
   \<and> 0 \<le> cli_calculate_health_score w p lang \<and> cli_calculate_health_score w p lang \<le> 100"
  using gui_score_range [of w p lang] cli_score_range [of w p lang] by simp

text \<open>The scores of an empty directory: 62 in the graphical front end, 65 on the
  command line.\<close>

theorem health_score_range_empty_dir:
  "calculate_health_score w_empty [''e''] ''unknown'' = 62
   \<and> cli_calculate_health_score w_empty [''e''] ''unknown'' = 65
   \<and> 0 \<le> calculate_health_score w_empty [''e''] ''unknown''
   \<and> calculate_health_score w_empty [''e''] ''unknown'' \<le> 100"
proof -
  have a: "calculate_health_score w_empty [''e''] ''unknown'' = 62" by code_simp
  have b: "cli_calculate_health_score w_empty [''e''] ''unknown'' = 65" by code_simp
  from a b health_score_range [of w_empty "[''e'']" "''unknown''"] show ?thesis by simp
qed

lemma count_project_like_filter_aux:
  "fold (\<lambda>subdir c. if has_project_indicators w subdir then c + 1 else c) ds n
     = n + length (filter (has_project_indicators w) ds)"
  by (induction ds arbitrary: n) auto

lemma count_project_like_filter:
  "count_project_like w ds = length (filter (has_project_indicators w) ds)"
  by (simp add: count_project_like_def count_project_like_filter_aux)

lemma is_collection_folder_iff:
  "visible_subdirs w p = Inr subdirs \<Longrightarrow>
     is_collection_folder w p
       = (3 \<le> length subdirs \<and> length subdirs \<le> 2 * length (filter (has_project_indicators w) subdirs))"
  by (auto simp: is_collection_folder_def count_project_like_filter)

lemma is_collection_folder_error:
  "visible_subdirs w p = Inl e \<Longrightarrow> \<not> is_collection_folder w p"
  by (simp add: is_collection_folder_def)











lemma status_of_days_cases:
  "status_of_days d \<in> {''Active'', ''Recent'', ''Inactive'', ''Stale''}"
  by (simp add: status_of_days_def)

lemma analyze_project_status:
  "analyze_project w p = Some r \<Longrightarrow>
     \<exists>e. node w p = Some e
        \<and> pi_status r = status_of_days (days_since_modified (now w) (mtime e))"
  by (auto simp: analyze_project_def get_project_status_def Let_def
           split: prod.splits option.splits sum.splits)

lemma quick_analyze_status:
  "quick_analyze_project w p = Some q \<Longrightarrow> pi_status q \<in> {''Unknown'', ''Collection''}"
  by (auto simp: quick_analyze_project_def Let_def split: option.splits sum.splits if_splits prod.splits)

text \<open>
  Claim C9, as the code has it. A record produced by full analysis has the status that
  \<open>get_project_status\<close> derives from the age of the directory in days: Active under 7,
  Recent under 30, Inactive under 90, Stale otherwise. A record produced by quick
  analysis has the status \<open>Unknown\<close>, or \<open>Collection\<close> for a collection folder.
\<close>

theorem full_analysis_status:
  assumes "analyze_project w p = Some r"
  shows "\<exists>e d. node w p = Some e \<and> d = (now w - int (mtime e)) div 86400000000
           \<and> pi_status r = (if d < 7 then ''Active'' else if d < 30 then ''Recent''
                             else if d < 90 then ''Inactive'' else ''Stale'')
           \<and> pi_status r \<in> {''Active'', ''Recent'', ''Inactive'', ''Stale''}
           \<and> get_project_status w p = Inr (pi_status r)
           \<and> (\<forall>q. quick_analyze_project w p = Some q \<longrightarrow> pi_status q \<in> {''Unknown'', ''Collection''})"
proof -
  from analyze_project_status [OF assms] obtain e where
    e: "node w p = Some e"
       "pi_status r = status_of_days (days_since_modified (now w) (mtime e))" by blast
  have "get_project_status w p = Inr (pi_status r)"
    using e by (simp add: get_project_status_def)
  moreover have "pi_status r \<in> {''Active'', ''Recent'', ''Inactive'', ''Stale''}"
    using e(2) status_of_days_cases by simp
  moreover have "\<forall>q. quick_analyze_project w p = Some q \<longrightarrow> pi_status q \<in> {''Unknown'', ''Collection''}"
    using quick_analyze_status by blast
  ultimately show ?thesis
    using e by (simp add: status_of_days_def days_since_modified_def)
qed

theorem full_analysis_status_witness:
  "map_option pi_status (analyze_project w_plain [''r'', ''n'']) = Some ''Stale''
   \<and> get_project_status w_plain [''r'', ''n''] = Inr ''Stale''"
proof -
  have "analyze_project w_plain [''r'', ''n''] \<noteq> None" by code_simp
  then obtain r where r: "analyze_project w_plain [''r'', ''n''] = Some r" by blast
  have g: "get_project_status w_plain [''r'', ''n''] = Inr ''Stale''" by code_simp
  from full_analysis_status [OF r] g have "pi_status r = ''Stale''" by auto
  with r g show ?thesis by simp
qed

text \<open>
  Claim C9 as stated fails for the records of a scan, which come from quick analysis.
\<close>

theorem quick_status_counterexample:
  "map_option pi_status (quick_analyze_project w_plain [''r'', ''n'']) = Some ''Unknown''
   \<and> map_option pi_status (quick_analyze_project w_coll [''c'']) = Some ''Collection''
   \<and> map pi_status (projects (load_projects w_plain (cfg_r True) Map.empty [])) = [''Unknown'']"
  by code_simp

section \<open>Properties of the fingerprint\<close>




lemma fold_key_mtime_max:
  "fold (\<lambda>key_file max_mtime.
             case node w (p @ [key_file]) of
               Some e \<Rightarrow> max max_mtime (mtime e)
             | None \<Rightarrow> max_mtime) ks a
   = fold max (map (key_val w p) ks) a"
proof (induction ks arbitrary: a)
  case Nil
  show ?case by simp
next
  case (Cons k ks)
  have step: "(case node w (p @ [k]) of Some e \<Rightarrow> max a (mtime e) | None \<Rightarrow> a)
                = max (key_val w p k) a"
    by (cases "node w (p @ [k])") (simp_all add: key_val_def max.commute)
  show ?case
    by (simp only: fold_simps list.map step Cons.IH)
qed

lemma fold_key_mtime:
  "fold (\<lambda>key_file max_mtime.
             case node w (p @ [key_file]) of
               Some e \<Rightarrow> max max_mtime (mtime e)
             | None \<Rightarrow> max_mtime) ks a
   = Max (insert a (key_val w p ` set ks))"
proof -
  have "fold max (map (key_val w p) ks) a = Max (set (a # map (key_val w p) ks))"
    by (rule Max.set_eq_fold [symmetric])
  then show ?thesis
    by (simp only: fold_key_mtime_max list.set set_map)
qed

lemma max_key_mtime_Max:
  "max_key_mtime w p = Max (insert 0 (key_val w p ` set key_files))"
  by (simp add: max_key_mtime_def fold_key_mtime)
















section \<open>Properties of the scanner\<close>

lemma visit_project_local:
  "visit_project recurse w cfg base_path parent_path depth project_path st =
     (case visit_local w cfg base_path parent_path depth project_path st of
        (st', True) \<Rightarrow> recurse project_path (st'\<lparr>trace := trace st' @ [Recursing project_path]\<rparr>)
      | (st', False) \<Rightarrow> st')"
  unfolding visit_project_def visit_local_def
  by (simp add: Let_def split: option.split sum.split bool.split prod.split)


lemma scan_dirs_fold_aux:
  "snd (fold (\<lambda>project_path (dirs_scanned, st).
                  if dirs_scanned \<ge> cap then (dirs_scanned, st)
                  else (dirs_scanned + 1,
                        body project_path (st\<lparr>trace := trace st @ [Examined depth project_path]\<rparr>)))
               dirs (n, st))
   = fold (\<lambda>pp st. body pp (st\<lparr>trace := trace st @ [Examined depth pp]\<rparr>)) (take (cap - n) dirs) st"
proof (induction dirs arbitrary: n st)
  case Nil
  show ?case by simp
next
  case (Cons d ds)
  show ?case
  proof (cases "cap \<le> n")
    case True
    with Cons [of n st] show ?thesis by simp
  next
    case False
    then obtain k where k: "cap - n = Suc k" by (cases "cap - n") auto
    then have k': "cap - (n + 1) = k" by simp
    from False k k' Cons [of "n + 1"] show ?thesis by simp
  qed
qed

lemma scan_dirs_fold:
  "scan_dirs cap depth body dirs st
     = fold (\<lambda>pp st. body pp (st\<lparr>trace := trace st @ [Examined depth pp]\<rparr>)) (take cap dirs) st"
  unfolding scan_dirs_def using scan_dirs_fold_aux [of cap body depth dirs 0 st] by simp

lemma fold_invariant:
  "(\<And>x s. x \<in> set xs \<Longrightarrow> Inv s \<Longrightarrow> Inv (f x s)) \<Longrightarrow> Inv s \<Longrightarrow> Inv (fold f xs s)"
  by (induction xs arbitrary: s) simp_all

lemma load_hierarchical_projects_invariant:
  assumes step: "\<And>st base parent dirs d pp st' r.
        Inv st \<Longrightarrow> visible_subdirs w base = Inr dirs \<Longrightarrow> pp \<in> set dirs \<Longrightarrow> d \<le> 2 \<Longrightarrow>
        visit_local w cfg base parent d pp (st\<lparr>trace := trace st @ [Examined d pp]\<rparr>) = (st', r) \<Longrightarrow>
        Inv (if r then st'\<lparr>trace := trace st' @ [Recursing pp]\<rparr> else st')"
    and inv: "Inv st"
  shows "Inv (load_hierarchical_projects w cfg base_path parent_path depth st)"
  using assms
proof (induction w cfg base_path parent_path depth st rule: load_hierarchical_projects.induct)
  case (1 w cfg base_path parent_path depth st)
  note IH = 1(1) and step = 1(2) and inv = 1(3)
  show ?case
  proof (cases "2 < depth")
    case True
    with inv show ?thesis by (simp add: load_hierarchical_projects.simps)
  next
    case shallow: False
    show ?thesis
    proof (cases "visible_subdirs w base_path")
      case (Inl e)
      with shallow inv show ?thesis by (simp add: load_hierarchical_projects.simps)
    next
      case (Inr dirs)
      let ?rec = "\<lambda>project_path st'.
                     load_hierarchical_projects w cfg project_path (Some project_path) (depth + 1) st'"
      let ?body = "\<lambda>pp st. visit_project ?rec w cfg base_path parent_path depth pp
                     (st\<lparr>trace := trace st @ [Examined depth pp]\<rparr>)"
      have res: "load_hierarchical_projects w cfg base_path parent_path depth st
              = fold ?body (take (max_dirs_per_level depth) (sort_key (\<lambda>d. lower (name_of d)) dirs)) st"
        using shallow Inr
        by (simp add: load_hierarchical_projects.simps [of w cfg base_path parent_path depth st]
              scan_dirs_fold)
      have body: "Inv (?body pp s)"
        if mem: "pp \<in> set (take (max_dirs_per_level depth) (sort_key (\<lambda>d. lower (name_of d)) dirs))"
          and s: "Inv s" for pp s
      proof -
        from mem have pp: "pp \<in> set dirs"
          using set_take_subset by fastforce
        obtain st' r where loc:
          "visit_local w cfg base_path parent_path depth pp
             (s\<lparr>trace := trace s @ [Examined depth pp]\<rparr>) = (st', r)"
          by (cases "visit_local w cfg base_path parent_path depth pp
             (s\<lparr>trace := trace s @ [Examined depth pp]\<rparr>)") blast
        from shallow have d2: "depth \<le> 2" by simp
        from step [OF s Inr pp d2 loc]
        have after: "Inv (if r then st'\<lparr>trace := trace st' @ [Recursing pp]\<rparr> else st')" .
        show ?thesis
        proof (cases r)
          case True
          with after have "Inv (st'\<lparr>trace := trace st' @ [Recursing pp]\<rparr>)" by simp
          from IH [OF shallow Inr step this] True loc show ?thesis
            by (simp add: visit_project_local)
        next
          case False
          with after loc show ?thesis by (simp add: visit_project_local)
        qed
      qed
      show ?thesis
        unfolding res by (rule fold_invariant [where Inv = Inv, OF body inv])
    qed
  qed
qed

lemma visit_local_effect:
  assumes "visit_local w cfg base parent d pp st = (st', r)"
  shows "\<exists>evs. trace st' = trace st @ evs
           \<and> (evs = [] \<or> evs = [CacheHit pp] \<or> evs = [CacheMiss pp])
           \<and> background_queue st' = background_queue st
                 @ (if background_processing cfg then misses evs else [])
           \<and> (projects st' = projects st
                \<or> (\<exists>info. projects st' = projects st @ [info] \<and> pi_path info = path_str pp
                      \<and> pi_depth info = Some d))
           \<and> (r \<longrightarrow> might_contain_subprojects w pp = Inr True)"
  using assms unfolding visit_local_def
  by (auto simp: Let_def split: if_splits option.splits sum.splits bool.splits prod.splits)

lemma visible_subdirs_member:
  assumes "visible_subdirs w base = Inr dirs" and "pp \<in> set dirs"
  shows "is_dir w pp \<and> \<not> startswith (name_of pp) ''.''"
  using assms by (auto simp: visible_subdirs_def split: sum.splits)

lemma load_projects_invariant:
  assumes step: "\<And>st base parent dirs d pp st' r.
        Inv st \<Longrightarrow> visible_subdirs w base = Inr dirs \<Longrightarrow> pp \<in> set dirs \<Longrightarrow> d \<le> 2 \<Longrightarrow>
        visit_local w cfg base parent d pp (st\<lparr>trace := trace st @ [Examined d pp]\<rparr>) = (st', r) \<Longrightarrow>
        Inv (if r then st'\<lparr>trace := trace st' @ [Recursing pp]\<rparr> else st')"
    and init: "Inv \<lparr> projects = [], hierarchical_projects = Map.empty, background_queue = q,
                       cache = c, trace = [] \<rparr>"
  shows "Inv (load_projects w cfg c q)"
proof -
  let ?st0 = "\<lparr> projects = [], hierarchical_projects = Map.empty, background_queue = q,
                 cache = c, trace = [] \<rparr>"
  have "Inv (load_hierarchical_projects w cfg (projects_dir cfg) None 0 ?st0)"
  proof (rule load_hierarchical_projects_invariant [where Inv = Inv])
    show "Inv ?st0" by (rule init)
  next
    fix st base parent dirs d pp st' r
    assume "Inv st" and "visible_subdirs w base = Inr dirs" and "pp \<in> set dirs" and "d \<le> 2"
      and "visit_local w cfg base parent d pp (st\<lparr>trace := trace st @ [Examined d pp]\<rparr>) = (st', r)"
    then show "Inv (if r then st'\<lparr>trace := trace st' @ [Recursing pp]\<rparr> else st')"
      by (rule step)
  qed
  with init show ?thesis
    unfolding load_projects_def by simp
qed

lemma visit_local_examined:
  assumes loc: "visit_local w cfg base parent d pp (st\<lparr>trace := trace st @ [Examined d pp]\<rparr>) = (st', r)"
  shows "\<exists>evs. trace st' = trace st @ [Examined d pp] @ evs
           \<and> (evs = [] \<or> evs = [CacheHit pp] \<or> evs = [CacheMiss pp])
           \<and> background_queue st' = background_queue st
                 @ (if background_processing cfg then misses evs else [])
           \<and> (projects st' = projects st
                \<or> (\<exists>info. projects st' = projects st @ [info] \<and> pi_path info = path_str pp
                      \<and> pi_depth info = Some d))
           \<and> (r \<longrightarrow> might_contain_subprojects w pp = Inr True)"
  using visit_local_effect [OF loc] by simp

lemma visible_records_step:
  assumes inv: "visible_records w st" and dirs: "visible_subdirs w base = Inr dirs"
    and pp: "pp \<in> set dirs"
    and loc: "visit_local w cfg base parent d pp (st\<lparr>trace := trace st @ [Examined d pp]\<rparr>) = (st', r)"
  shows "visible_records w (if r then st'\<lparr>trace := trace st' @ [Recursing pp]\<rparr> else st')"
proof -
  from visit_local_examined [OF loc] obtain evs where
    tr: "trace st' = trace st @ [Examined d pp] @ evs"
    and evs: "evs = [] \<or> evs = [CacheHit pp] \<or> evs = [CacheMiss pp]"
    and pr: "projects st' = projects st
             \<or> (\<exists>info. projects st' = projects st @ [info] \<and> pi_path info = path_str pp
                      \<and> pi_depth info = Some d)"
    by blast
  from visible_subdirs_member [OF dirs pp] have vis: "is_dir w pp \<and> \<not> startswith (name_of pp) ''.''" .
  from inv have old_rec: "\<And>r. r \<in> set (projects st) \<Longrightarrow>
        \<exists>d pp. Examined d pp \<in> set (trace st) \<and> pi_path r = path_str pp"
    and old_ex: "\<And>d pp. Examined d pp \<in> set (trace st) \<Longrightarrow>
        is_dir w pp \<and> \<not> startswith (name_of pp) ''.''"
    unfolding visible_records_def by blast+
  have sub: "set (trace st) \<subseteq> set (trace st')" using tr by auto
  have here: "Examined d pp \<in> set (trace st')" using tr by simp
  have a: "\<exists>d pp. Examined d pp \<in> set (trace st') \<and> pi_path r = path_str pp"
    if r: "r \<in> set (projects st')" for r
  proof (cases "r \<in> set (projects st)")
    case True
    from old_rec [OF True] sub show ?thesis by blast
  next
    case False
    with r pr have "pi_path r = path_str pp" by auto
    with here show ?thesis by blast
  qed
  have b: "is_dir w q \<and> \<not> startswith (name_of q) ''.''"
    if q: "Examined k q \<in> set (trace st')" for k q
  proof (cases "Examined k q \<in> set (trace st)")
    case True
    then show ?thesis by (rule old_ex)
  next
    case False
    with q tr evs have "q = pp" by auto
    with vis show ?thesis by simp
  qed
  have "visible_records w st'"
    unfolding visible_records_def using a b by blast
  moreover have "visible_records w (st'\<lparr>trace := trace st' @ [Recursing pp]\<rparr>)"
    unfolding visible_records_def using a b by simp
  ultimately show ?thesis by simp
qed

text \<open>
  Claim C10. Every record of a scan is the record of a directory that the loop examined,
  and every directory the loop examines, at any level, is a directory whose name does not
  begin with a dot. The collection predicate is computed from the visible subdirectories
  alone, none of which has a dot name.
\<close>

theorem hidden_never_recorded:
  "(\<forall>r \<in> set (projects (load_projects w cfg c q)).
       \<exists>d pp. Examined d pp \<in> set (trace (load_projects w cfg c q)) \<and> pi_path r = path_str pp
              \<and> is_dir w pp \<and> \<not> startswith (name_of pp) ''.'')
   \<and> (\<forall>d pp. Examined d pp \<in> set (trace (load_projects w cfg c q))
          \<longrightarrow> \<not> startswith (name_of pp) ''.'')
   \<and> (\<forall>ds. visible_subdirs w p = Inr ds \<longrightarrow>
         (\<forall>d \<in> set ds. \<not> startswith (name_of d) ''.'')
         \<and> is_collection_folder w p
             = (3 \<le> length ds \<and> length ds \<le> 2 * length (filter (has_project_indicators w) ds)))"
proof -
  have "visible_records w (load_projects w cfg c q)"
  proof (rule load_projects_invariant [where Inv = "visible_records w"])
    show "visible_records w \<lparr> projects = [], hierarchical_projects = Map.empty,
            background_queue = q, cache = c, trace = [] \<rparr>"
      by (simp add: visible_records_def)
  next
    fix st base parent dirs d pp st' r
    assume "visible_records w st" and "visible_subdirs w base = Inr dirs" and "pp \<in> set dirs"
      and "d \<le> 2"
      and "visit_local w cfg base parent d pp (st\<lparr>trace := trace st @ [Examined d pp]\<rparr>) = (st', r)"
    then show "visible_records w (if r then st'\<lparr>trace := trace st' @ [Recursing pp]\<rparr> else st')"
      by (intro visible_records_step)
  qed
  then have a: "\<forall>r \<in> set (projects (load_projects w cfg c q)).
       \<exists>d pp. Examined d pp \<in> set (trace (load_projects w cfg c q)) \<and> pi_path r = path_str pp
              \<and> is_dir w pp \<and> \<not> startswith (name_of pp) ''.''"
    and b: "\<forall>d pp. Examined d pp \<in> set (trace (load_projects w cfg c q))
          \<longrightarrow> \<not> startswith (name_of pp) ''.''"
    unfolding visible_records_def by blast+
  have c: "\<forall>ds. visible_subdirs w p = Inr ds \<longrightarrow>
         (\<forall>d \<in> set ds. \<not> startswith (name_of d) ''.'')
         \<and> is_collection_folder w p
             = (3 \<le> length ds \<and> length ds \<le> 2 * length (filter (has_project_indicators w) ds))"
    using visible_subdirs_member [of w p] is_collection_folder_iff [of w p] by blast
  from a b c show ?thesis by blast
qed

theorem hidden_never_recorded_witness:
  "is_dir w_hidden [''r'', ''.h'']
   \<and> exists_path w_hidden [''r'', ''.h'', ''package.json'']
   \<and> Examined 0 [''r'', ''.h''] \<notin> set (trace (load_projects w_hidden (cfg_r True) Map.empty []))
   \<and> map pi_path (projects (load_projects w_hidden (cfg_r True) Map.empty [])) = [''/r/v'']"
proof -
  have a: "is_dir w_hidden [''r'', ''.h''] \<and> exists_path w_hidden [''r'', ''.h'', ''package.json'']"
    by code_simp
  have h: "startswith (name_of [''r'', ''.h'']) ''.''" by code_simp
  from hidden_never_recorded [of w_hidden "cfg_r True" Map.empty "[]" "[]"] h
  have b: "Examined 0 [''r'', ''.h''] \<notin> set (trace (load_projects w_hidden (cfg_r True) Map.empty []))"
    by blast
  have c: "map pi_path (projects (load_projects w_hidden (cfg_r True) Map.empty [])) = [''/r/v'']"
    by code_simp
  from a b c show ?thesis by simp
qed

lemma scan_indicators_not_True:
  assumes "\<forall>i \<in> set inds. \<forall>items. iterdir w (p @ [i]) = Inr items \<longrightarrow> \<not> list_ex (project_like_item w) items"
  shows "scan_indicators w p inds \<noteq> Inr True"
  using assms
proof (induction inds)
  case Nil
  show ?case by simp
next
  case (Cons i inds)
  then have rest: "scan_indicators w p inds \<noteq> Inr True" by simp
  from Cons.prems have here: "\<forall>items. iterdir w (p @ [i]) = Inr items \<longrightarrow> \<not> list_ex (project_like_item w) items"
    by simp
  show ?case
  proof (cases "iterdir w (p @ [i])")
    case (Inl e)
    with rest show ?thesis by simp
  next
    case (Inr items)
    with here have "\<not> list_ex (project_like_item w) items" by simp
    with Inr rest show ?thesis by simp
  qed
qed

lemma might_contain_subprojects_not_True:
  assumes "\<not> is_collection_folder w p"
    and "\<forall>i \<in> set subproject_indicators. \<forall>items.
           iterdir w (p @ [i]) = Inr items \<longrightarrow> \<not> list_ex (project_like_item w) items"
    and "\<not> list_ex (\<lambda>f. exists_path w (p @ [f])) workspace_files"
  shows "might_contain_subprojects w p \<noteq> Inr True"
  using assms(1,3) scan_indicators_not_True [OF assms(2)]
  by (auto simp: might_contain_subprojects_def split: sum.splits bool.splits)

lemma not_recursed_step:
  assumes no: "might_contain_subprojects w p \<noteq> Inr True"
    and inv: "Recursing p \<notin> set (trace st)"
    and loc: "visit_local w cfg base parent d pp (st\<lparr>trace := trace st @ [Examined d pp]\<rparr>) = (st', r)"
  shows "Recursing p \<notin> set (trace (if r then st'\<lparr>trace := trace st' @ [Recursing pp]\<rparr> else st'))"
proof -
  from visit_local_examined [OF loc] obtain evs where
    tr: "trace st' = trace st @ [Examined d pp] @ evs"
    and evs: "evs = [] \<or> evs = [CacheHit pp] \<or> evs = [CacheMiss pp]"
    and rec: "r \<longrightarrow> might_contain_subprojects w pp = Inr True"
    by blast
  from tr evs inv have keep: "Recursing p \<notin> set (trace st')" by auto
  show ?thesis
  proof (cases r)
    case True
    with rec no have "pp \<noteq> p" by auto
    with keep True show ?thesis by simp
  next
    case False
    with keep show ?thesis by simp
  qed
qed

text \<open>
  Claim C2, as the code has it. The scanner recurses into a directory only when
  \<open>_might_contain_subprojects\<close> holds. So it never recurses into a directory that is not
  a collection folder, has no directory among \<open>packages\<close>, \<open>apps\<close>, \<open>libs\<close>, \<open>services\<close>,
  \<open>modules\<close>, \<open>components\<close>, \<open>src\<close>, \<open>lib\<close>, \<open>app\<close>, \<open>client\<close>, \<open>server\<close>, \<open>frontend\<close>,
  \<open>backend\<close> with a visible project-like child, and has none of the files
  \<open>package.json\<close>, \<open>lerna.json\<close>, \<open>nx.json\<close>, \<open>rush.json\<close>.
\<close>

theorem no_recursion_without_indicators:
  assumes "\<not> is_collection_folder w p"
    and "\<forall>i \<in> set subproject_indicators. \<forall>items.
           iterdir w (p @ [i]) = Inr items \<longrightarrow> \<not> list_ex (project_like_item w) items"
    and "\<not> list_ex (\<lambda>f. exists_path w (p @ [f])) workspace_files"
  shows "Recursing p \<notin> set (trace (load_projects w cfg c q))"
proof -
  from might_contain_subprojects_not_True [OF assms]
  have no: "might_contain_subprojects w p \<noteq> Inr True" .
  show ?thesis
  proof (rule load_projects_invariant [where Inv = "\<lambda>st. Recursing p \<notin> set (trace st)"])
    show "Recursing p \<notin> set (trace \<lparr> projects = [], hierarchical_projects = Map.empty,
            background_queue = q, cache = c, trace = [] \<rparr>)"
      by simp
  next
    fix st base parent dirs d pp st' r
    assume "Recursing p \<notin> set (trace st)"
      and "visit_local w cfg base parent d pp (st\<lparr>trace := trace st @ [Examined d pp]\<rparr>) = (st', r)"
    then show "Recursing p \<notin> set (trace (if r then st'\<lparr>trace := trace st' @ [Recursing pp]\<rparr> else st'))"
      by (rule not_recursed_step [OF no])
  qed
qed

lemma misses_append: "misses (xs @ ys) = misses xs @ misses ys"
  by (induction xs rule: misses.induct) simp_all

lemma queue_step:
  assumes inv: "background_queue st = q @ (if background_processing cfg then misses (trace st) else [])"
    and loc: "visit_local w cfg base parent d pp (st\<lparr>trace := trace st @ [Examined d pp]\<rparr>) = (st', r)"
  shows "background_queue (if r then st'\<lparr>trace := trace st' @ [Recursing pp]\<rparr> else st')
           = q @ (if background_processing cfg
                  then misses (trace (if r then st'\<lparr>trace := trace st' @ [Recursing pp]\<rparr> else st'))
                  else [])"
proof -
  from visit_local_examined [OF loc] obtain evs where
    tr: "trace st' = trace st @ [Examined d pp] @ evs"
    and bq: "background_queue st' = background_queue st
                 @ (if background_processing cfg then misses evs else [])"
    by blast
  from tr have m: "misses (trace st') = misses (trace st) @ misses evs"
    by (simp add: misses_append)
  from m bq inv show ?thesis
    by (simp add: misses_append)
qed

text \<open>
  Claim C5, as the code has it. A scan appends to the background queue exactly the
  directories whose cache lookup missed, in the order of the misses and once per miss,
  and nothing when background processing is switched off. A directory whose lookup hits
  is not enqueued, whatever analysis produced the cached record.
\<close>

theorem queue_is_cache_misses:
  "background_queue (load_projects w cfg c q)
     = q @ (if background_processing cfg then misses (trace (load_projects w cfg c q)) else [])"
proof (rule load_projects_invariant
    [where Inv = "\<lambda>st. background_queue st
                     = q @ (if background_processing cfg then misses (trace st) else [])"])
  show "background_queue \<lparr> projects = [], hierarchical_projects = Map.empty,
            background_queue = q, cache = c, trace = [] \<rparr>
        = q @ (if background_processing cfg
               then misses (trace \<lparr> projects = [], hierarchical_projects = Map.empty,
                      background_queue = q, cache = c, trace = [] \<rparr>) else [])"
    by simp
next
  fix st base parent dirs d pp st' r
  assume "background_queue st = q @ (if background_processing cfg then misses (trace st) else [])"
    and "visit_local w cfg base parent d pp (st\<lparr>trace := trace st @ [Examined d pp]\<rparr>) = (st', r)"
  then show "background_queue (if r then st'\<lparr>trace := trace st' @ [Recursing pp]\<rparr> else st')
           = q @ (if background_processing cfg
                  then misses (trace (if r then st'\<lparr>trace := trace st' @ [Recursing pp]\<rparr> else st'))
                  else [])"
    by (rule queue_step)
qed

lemma fold_count_bound:
  fixes c :: "'s \<Rightarrow> nat"
  assumes "\<And>x s. x \<in> set xs \<Longrightarrow> c (f x s) \<le> c s + B"
  shows "c (fold f xs s) \<le> c s + length xs * B"
  using assms
proof (induction xs arbitrary: s)
  case Nil
  show ?case by simp
next
  case (Cons x xs)
  have "c (fold f xs (f x s)) \<le> c (f x s) + length xs * B"
    by (rule Cons.IH) (simp add: Cons.prems)
  moreover have "c (f x s) \<le> c s + B" by (rule Cons.prems) simp
  ultimately show ?case by simp
qed

lemma load_count_bound:
  fixes cnt :: "event list \<Rightarrow> nat" and wt :: "nat \<Rightarrow> nat" and bnd :: "nat \<Rightarrow> nat"
  assumes add: "\<And>xs ys. cnt (xs @ ys) = cnt xs + cnt ys"
    and ex: "\<And>d p. cnt [Examined d p] = wt d"
    and hit: "\<And>p. cnt [CacheHit p] = 0"
    and miss: "\<And>p. cnt [CacheMiss p] = 0"
    and recu: "\<And>p. cnt [Recursing p] = 0"
    and bnd: "\<And>d. d \<le> 2 \<Longrightarrow> max_dirs_per_level d * (wt d + bnd (d + 1)) \<le> bnd d"
  shows "cnt (trace (load_hierarchical_projects w cfg base_path parent_path depth st))
           \<le> cnt (trace st) + bnd depth"
proof (induction w cfg base_path parent_path depth st rule: load_hierarchical_projects.induct)
  case (1 w cfg base_path parent_path depth st)
  note IH = 1
  have nil: "cnt [] = 0" using add [of "[]" "[]"] by simp
  show ?case
  proof (cases "2 < depth")
    case True
    then show ?thesis by (simp add: load_hierarchical_projects.simps)
  next
    case shallow: False
    show ?thesis
    proof (cases "visible_subdirs w base_path")
      case (Inl e)
      with shallow show ?thesis by (simp add: load_hierarchical_projects.simps)
    next
      case (Inr dirs)
      let ?rec = "\<lambda>project_path st'.
                     load_hierarchical_projects w cfg project_path (Some project_path) (depth + 1) st'"
      let ?body = "\<lambda>pp st. visit_project ?rec w cfg base_path parent_path depth pp
                     (st\<lparr>trace := trace st @ [Examined depth pp]\<rparr>)"
      let ?xs = "take (max_dirs_per_level depth) (sort_key (\<lambda>d. lower (name_of d)) dirs)"
      let ?B = "wt depth + bnd (depth + 1)"
      have res: "load_hierarchical_projects w cfg base_path parent_path depth st = fold ?body ?xs st"
        using shallow Inr
        by (simp add: load_hierarchical_projects.simps [of w cfg base_path parent_path depth st]
              scan_dirs_fold)
      have body: "cnt (trace (?body pp s)) \<le> cnt (trace s) + ?B" for pp s
      proof -
        obtain st' r where loc:
          "visit_local w cfg base_path parent_path depth pp
             (s\<lparr>trace := trace s @ [Examined depth pp]\<rparr>) = (st', r)"
          by (cases "visit_local w cfg base_path parent_path depth pp
             (s\<lparr>trace := trace s @ [Examined depth pp]\<rparr>)") blast
        from visit_local_examined [OF loc] obtain evs where
          tr: "trace st' = trace s @ [Examined depth pp] @ evs"
          and evs: "evs = [] \<or> evs = [CacheHit pp] \<or> evs = [CacheMiss pp]"
          by blast
        from evs have "cnt evs = 0" using nil hit miss by auto
        moreover have "cnt (trace st') = cnt (trace s) + (cnt [Examined depth pp] + cnt evs)"
          unfolding tr by (simp only: add)
        ultimately have c': "cnt (trace st') = cnt (trace s) + wt depth"
          by (simp add: ex)
        show ?thesis
        proof (cases r)
          case True
          let ?s2 = "st'\<lparr>trace := trace st' @ [Recursing pp]\<rparr>"
          have "cnt (trace (?rec pp ?s2)) \<le> cnt (trace ?s2) + bnd (depth + 1)"
            by (rule IH [OF shallow Inr])
          moreover have "cnt (trace ?s2) = cnt (trace st')" by (simp add: add recu)
          ultimately show ?thesis
            using True loc c' by (simp add: visit_project_local)
        next
          case False
          with loc c' show ?thesis by (simp add: visit_project_local)
        qed
      qed
      have "cnt (trace (fold ?body ?xs st)) \<le> cnt (trace st) + length ?xs * ?B"
        by (rule fold_count_bound [where c = "\<lambda>s. cnt (trace s)"]) (rule body)
      moreover have "length ?xs * ?B \<le> max_dirs_per_level depth * ?B"
        by (intro mult_le_mono1) simp
      moreover have "max_dirs_per_level depth * ?B \<le> bnd depth"
        using shallow by (intro bnd) simp
      ultimately show ?thesis unfolding res by linarith
    qed
  qed
qed

lemma examined_at_append: "examined_at k (xs @ ys) = examined_at k xs + examined_at k ys"
proof (induction xs)
  case Nil
  show ?case by simp
next
  case (Cons e es)
  then show ?case by (cases e) simp_all
qed

lemma examined_append: "examined (xs @ ys) = examined xs @ examined ys"
proof (induction xs)
  case Nil
  show ?case by simp
next
  case (Cons e es)
  then show ?case by (cases e) simp_all
qed

lemma examined_at_bound:
  "examined_at k (trace (load_hierarchical_projects w cfg base_path parent_path depth st))
     \<le> examined_at k (trace st) + fan_out_bound depth k"
proof (rule load_count_bound [where wt = "\<lambda>d. if d = k then 1 else 0"
        and bnd = "\<lambda>d. fan_out_bound d k"])
  fix d :: nat
  assume "d \<le> 2"
  then consider "d = 0" | "d = 1" | "d = 2" by linarith
  then show "max_dirs_per_level d * ((if d = k then 1 else 0) + fan_out_bound (d + 1) k)
               \<le> fan_out_bound d k"
    by cases (auto simp: fan_out_bound_def max_dirs_per_level_def)
qed (simp_all add: examined_at_append)

lemma examined_total_bound:
  "length (examined (trace (load_hierarchical_projects w cfg base_path parent_path depth st)))
     \<le> length (examined (trace st)) + total_bound depth"
proof (rule load_count_bound [where cnt = "\<lambda>tr. length (examined tr)" and wt = "\<lambda>d. 1"
        and bnd = total_bound])
  fix d :: nat
  assume "d \<le> 2"
  then consider "d = 0" | "d = 1" | "d = 2" by linarith
  then show "max_dirs_per_level d * (1 + total_bound (d + 1)) \<le> total_bound d"
    by cases (auto simp: total_bound_def max_dirs_per_level_def)
qed (simp_all add: examined_append)

lemma records_le_examined:
  "length (projects (load_projects w cfg c q)) \<le> length (examined (trace (load_projects w cfg c q)))"
proof (rule load_projects_invariant
    [where Inv = "\<lambda>s. length (projects s) \<le> length (examined (trace s))"])
  show "length (projects \<lparr> projects = [], hierarchical_projects = Map.empty,
            background_queue = q, cache = c, trace = [] \<rparr>)
        \<le> length (examined (trace \<lparr> projects = [], hierarchical_projects = Map.empty,
            background_queue = q, cache = c, trace = [] \<rparr>))"
    by simp
next
  fix st base parent dirs d pp st' r
  assume inv: "length (projects st) \<le> length (examined (trace st))"
    and loc: "visit_local w cfg base parent d pp (st\<lparr>trace := trace st @ [Examined d pp]\<rparr>) = (st', r)"
  from visit_local_examined [OF loc] obtain evs where
    tr: "trace st' = trace st @ [Examined d pp] @ evs"
    and evs: "evs = [] \<or> evs = [CacheHit pp] \<or> evs = [CacheMiss pp]"
    and pr: "projects st' = projects st
             \<or> (\<exists>info. projects st' = projects st @ [info] \<and> pi_path info = path_str pp
                      \<and> pi_depth info = Some d)"
    by blast
  from evs have "examined evs = []" by auto
  with tr have ex: "examined (trace st') = examined (trace st) @ [pp]"
    by (simp add: examined_append)
  from pr have "length (projects st') \<le> length (projects st) + 1" by auto
  with inv ex have here: "length (projects st') \<le> length (examined (trace st'))" by simp
  have "examined (trace (st'\<lparr>trace := trace st' @ [Recursing pp]\<rparr>)) = examined (trace st')"
    by (simp add: examined_append)
  with here show "length (projects (if r then st'\<lparr>trace := trace st' @ [Recursing pp]\<rparr> else st'))
        \<le> length (examined (trace (if r then st'\<lparr>trace := trace st' @ [Recursing pp]\<rparr> else st')))"
    by simp
qed

text \<open>
  Claim C7, as the code has it. The scan is a total function (its termination is proved
  with the measure \<open>3 - depth\<close>, for every file system, finite or not). A call at a depth
  above 2 returns at once; the loop of a call at depth 0, 1, 2 runs for at most 15, 8, 5
  directories. So the loop of a scan runs for at most 15 directories at depth 0, 15 * 8
  at depth 1, 15 * 8 * 5 at depth 2, none deeper, and at most 735 in all, and a scan
  emits at most 735 records. What is bounded is the number of loop iterations
  (\<open>Examined\<close> events), not the number of directories the scan reads: the listing is
  read in full before the limit applies, the collection test probes every visible
  subdirectory, and the size walk covers the whole subtree.
\<close>

theorem scan_bounded:
  "(2 < depth \<longrightarrow> load_hierarchical_projects w cfg base_path parent_path depth st = st)
   \<and> examined_at depth (trace (load_hierarchical_projects w cfg base_path parent_path depth st))
        \<le> examined_at depth (trace st) + (if depth = 0 then 15 else if depth = 1 then 8 else 5)
   \<and> examined_at 0 (trace (load_projects w cfg c q)) \<le> 15
   \<and> examined_at 1 (trace (load_projects w cfg c q)) \<le> 15 * 8
   \<and> examined_at 2 (trace (load_projects w cfg c q)) \<le> 15 * 8 * 5
   \<and> (2 < k \<longrightarrow> examined_at k (trace (load_projects w cfg c q)) = 0)
   \<and> length (examined (trace (load_projects w cfg c q))) \<le> 735
   \<and> length (projects (load_projects w cfg c q)) \<le> 735"
proof -
  let ?st0 = "\<lparr> projects = [], hierarchical_projects = Map.empty, background_queue = q,
                 cache = c, trace = [] \<rparr>"
  have stop: "2 < depth \<longrightarrow> load_hierarchical_projects w cfg base_path parent_path depth st = st"
    by (simp add: load_hierarchical_projects.simps)
  have level: "examined_at depth (trace (load_hierarchical_projects w cfg base_path parent_path depth st))
        \<le> examined_at depth (trace st) + (if depth = 0 then 15 else if depth = 1 then 8 else 5)"
  proof -
    have "fan_out_bound depth depth \<le> (if depth = 0 then 15 else if depth = 1 then 8 else 5)"
      by (simp add: fan_out_bound_def max_dirs_per_level_def)
    with examined_at_bound [of depth w cfg base_path parent_path depth st] show ?thesis
      by linarith
  qed
  have at: "examined_at j (trace (load_projects w cfg c q)) \<le> fan_out_bound 0 j" for j
  proof (cases "exists_path w (projects_dir cfg)")
    case True
    then have "load_projects w cfg c q
                 = load_hierarchical_projects w cfg (projects_dir cfg) None 0 ?st0"
      by (simp add: load_projects_def)
    with examined_at_bound [of j w cfg "projects_dir cfg" None 0 ?st0] show ?thesis by simp
  next
    case False
    then have "trace (load_projects w cfg c q) = []" by (simp add: load_projects_def)
    then show ?thesis by simp
  qed
  have total: "length (examined (trace (load_projects w cfg c q))) \<le> total_bound 0"
  proof (cases "exists_path w (projects_dir cfg)")
    case True
    then have "load_projects w cfg c q
                 = load_hierarchical_projects w cfg (projects_dir cfg) None 0 ?st0"
      by (simp add: load_projects_def)
    with examined_total_bound [of w cfg "projects_dir cfg" None 0 ?st0] show ?thesis by simp
  next
    case False
    then have "trace (load_projects w cfg c q) = []" by (simp add: load_projects_def)
    then show ?thesis by simp
  qed
  from at [of 0] have a0: "examined_at 0 (trace (load_projects w cfg c q)) \<le> 15"
    by (simp add: fan_out_bound_def max_dirs_per_level_def)
  from at [of 1] have a1: "examined_at 1 (trace (load_projects w cfg c q)) \<le> 15 * 8"
    by (simp add: fan_out_bound_def max_dirs_per_level_def)
  from at [of 2] have a2: "examined_at 2 (trace (load_projects w cfg c q)) \<le> 15 * 8 * 5"
    by (simp add: fan_out_bound_def max_dirs_per_level_def)
  have ak: "2 < k \<longrightarrow> examined_at k (trace (load_projects w cfg c q)) = 0"
  proof
    assume "2 < k"
    then have "fan_out_bound 0 k = 0" by (simp add: fan_out_bound_def)
    with at [of k] show "examined_at k (trace (load_projects w cfg c q)) = 0" by simp
  qed
  from total have t: "length (examined (trace (load_projects w cfg c q))) \<le> 735"
    by (simp add: total_bound_def max_dirs_per_level_def)
  from t records_le_examined [of w cfg c q]
  have p: "length (projects (load_projects w cfg c q)) \<le> 735" by linarith
  from stop level a0 a1 a2 ak t p show ?thesis by blast
qed

text \<open>On the endless tree the scan returns after three directories, one per level.\<close>

theorem scan_bounded_witness:
  "load_hierarchical_projects w_endless (cfg_r False) [''a''] None 3
       \<lparr> projects = [], hierarchical_projects = Map.empty, background_queue = [],
         cache = Map.empty, trace = [] \<rparr>
     = \<lparr> projects = [], hierarchical_projects = Map.empty, background_queue = [],
         cache = Map.empty, trace = [] \<rparr>
   \<and> examined_at 3 (trace (load_projects w_endless (cfg_r False) Map.empty [])) = 0
   \<and> examined (trace (load_projects w_endless (cfg_r False) Map.empty []))
       = [[''r'', ''a''], [''r'', ''a'', ''a''], [''r'', ''a'', ''a'', ''a'']]"
proof -
  let ?st0 = "\<lparr> projects = [], hierarchical_projects = Map.empty, background_queue = [],
         cache = Map.empty, trace = [] \<rparr> :: scanner"
  have d: "(2::nat) < 3" by simp
  from scan_bounded [of 3 w_endless "cfg_r False" "[''a'']" None ?st0 Map.empty "[]" 3] d
  have a: "load_hierarchical_projects w_endless (cfg_r False) [''a''] None 3 ?st0 = ?st0"
    and z: "examined_at 3 (trace (load_projects w_endless (cfg_r False) Map.empty [])) = 0"
    by blast+
  have t: "examined (trace (load_projects w_endless (cfg_r False) Map.empty []))
       = [[''r'', ''a''], [''r'', ''a'', ''a''], [''r'', ''a'', ''a'', ''a'']]"
    by code_simp
  from a z t show ?thesis by simp
qed

text \<open>
  Claim C7 as stated fails for the directories examined. Under \<open>/r/d\<close> the loop runs for
  the first eight subdirectories only, none of which looks like a project, yet the
  record of \<open>/r/d\<close> counts all sixteen subdirectories and the eight projects among the
  last eight: the collection test has examined sixteen directories at a level whose
  limit is eight, and it examines as many as the directory holds.
\<close>

theorem wide_directory_counterexample:
  "scan_summary (load_projects w_wide (cfg_r False) Map.empty [])
     = ([''Collection (8 projects)''], [''16 items''],
        [[''r'', ''d''], [''r'', ''d'', ''z00''], [''r'', ''d'', ''z01''], [''r'', ''d'', ''z02''], [''r'', ''d'', ''z03''], [''r'', ''d'', ''z04''], [''r'', ''d'', ''z05''], [''r'', ''d'', ''z06''], [''r'', ''d'', ''z07'']])
   \<and> count_project_like w_wide
        [[''r'', ''d'', ''z00''], [''r'', ''d'', ''z01''], [''r'', ''d'', ''z02''], [''r'', ''d'', ''z03''], [''r'', ''d'', ''z04''], [''r'', ''d'', ''z05''], [''r'', ''d'', ''z06''], [''r'', ''d'', ''z07'']] = 0
   \<and> count_project_like w_wide
        [[''r'', ''d'', ''z08''], [''r'', ''d'', ''z09''], [''r'', ''d'', ''z10''], [''r'', ''d'', ''z11''], [''r'', ''d'', ''z12''], [''r'', ''d'', ''z13''], [''r'', ''d'', ''z14''], [''r'', ''d'', ''z15'']] = 8"
  by code_simp

theorem no_recursion_without_indicators_witness:
  "exists_path w_plain [''r'', ''n'', ''go.mod'']
   \<and> \<not> is_collection_folder w_plain [''r'', ''n'']
   \<and> Recursing [''r'', ''n''] \<notin> set (trace (load_projects w_plain (cfg_r True) Map.empty []))
   \<and> map pi_path (projects (load_projects w_plain (cfg_r True) Map.empty [])) = [''/r/n'']"
proof -
  have h1: "\<not> is_collection_folder w_plain [''r'', ''n'']" by code_simp
  have h2: "\<forall>i \<in> set subproject_indicators. \<forall>items.
           iterdir w_plain ([''r'', ''n''] @ [i]) = Inr items \<longrightarrow> \<not> list_ex (project_like_item w_plain) items"
    by (simp add: subproject_indicators_def iterdir_def w_plain_def mk_world_def)
  have h3: "\<not> list_ex (\<lambda>f. exists_path w_plain ([''r'', ''n''] @ [f])) workspace_files"
    by (simp add: workspace_files_def exists_path_def w_plain_def mk_world_def)
  have e: "exists_path w_plain [''r'', ''n'', ''go.mod'']"
    by (simp add: exists_path_def w_plain_def mk_world_def)
  have p: "map pi_path (projects (load_projects w_plain (cfg_r True) Map.empty [])) = [''/r/n'']"
    by code_simp
  from no_recursion_without_indicators [OF h1 h2 h3, of "cfg_r True" Map.empty "[]"] e h1 p
  show ?thesis by simp
qed

text \<open>
  Claim C2 as stated fails. Each of these directories has exactly one manifest, no
  workspace file beside it and no \<open>packages\<close>, \<open>apps\<close>, \<open>libs\<close> or \<open>services\<close> directory,
  and the scanner recurses into it: \<open>/r/m\<close> (a \<open>requirements.txt\<close> and three
  subdirectories with a README) because the collection predicate does not look at
  manifests, \<open>/r/s\<close> because \<open>src\<close> is among the indicator directories, \<open>/r/k\<close> because
  \<open>package.json\<close> itself is in the list of workspace files.
\<close>

theorem single_manifest_recursion_counterexample:
  "quick_detect_project_type w_manifest_coll [''r'', ''m''] = (''python'', ''python'', ''flask'')
   \<and> trace (load_projects w_manifest_coll (cfg_r False) Map.empty [])
       = [Examined 0 [''r'', ''m''], CacheMiss [''r'', ''m''], Recursing [''r'', ''m''],
          Examined 1 [''r'', ''m'', ''x''], CacheMiss [''r'', ''m'', ''x''],
          Examined 1 [''r'', ''m'', ''y''], CacheMiss [''r'', ''m'', ''y''],
          Examined 1 [''r'', ''m'', ''z''], CacheMiss [''r'', ''m'', ''z'']]
   \<and> trace (load_projects w_src (cfg_r False) Map.empty [])
       = [Examined 0 [''r'', ''s''], CacheMiss [''r'', ''s''], Recursing [''r'', ''s''],
          Examined 1 [''r'', ''s'', ''src'']]
   \<and> trace (load_projects w_pkg (cfg_r False) Map.empty [])
       = [Examined 0 [''r'', ''k''], CacheMiss [''r'', ''k''], Recursing [''r'', ''k'']]"
  by code_simp

theorem queue_is_cache_misses_witness:
  "trace (load_projects w_plain (cfg_r True) Map.empty [])
     = [Examined 0 [''r'', ''n''], CacheMiss [''r'', ''n'']]
   \<and> background_queue (load_projects w_plain (cfg_r True) Map.empty []) = [[''r'', ''n'']]"
proof -
  have t: "trace (load_projects w_plain (cfg_r True) Map.empty [])
     = [Examined 0 [''r'', ''n''], CacheMiss [''r'', ''n'']]" by code_simp
  have b: "background_processing (cfg_r True)" by (simp add: cfg_r_def)
  from queue_is_cache_misses [of w_plain "cfg_r True" Map.empty "[]"] t b
  show ?thesis by simp
qed

text \<open>
  Claim C5 as stated fails. A first scan with background processing switched off leaves
  a cache entry made by quick analysis; a second scan, with background processing on,
  hits that entry and enqueues nothing.
\<close>

theorem quick_cache_hit_not_queued_counterexample:
  "map_option pi_status
      (get_cached_project w_plain [''r'', ''n'']
         (cache (load_projects w_plain (cfg_r False) Map.empty []))) = Some ''Unknown''
   \<and> map_option pi_health
      (get_cached_project w_plain [''r'', ''n'']
         (cache (load_projects w_plain (cfg_r False) Map.empty []))) = Some 50
   \<and> background_queue (load_projects w_plain (cfg_r False) Map.empty []) = []
   \<and> trace (load_projects w_plain (cfg_r True)
              (cache (load_projects w_plain (cfg_r False) Map.empty [])) [])
       = [Examined 0 [''r'', ''n''], CacheHit [''r'', ''n'']]
   \<and> background_queue (load_projects w_plain (cfg_r True)
              (cache (load_projects w_plain (cfg_r False) Map.empty [])) []) = []"
  by code_simp

section \<open>Order of the scan\<close>

lemma reordered_cases:
  assumes "reordered a b"
  shows "b = a \<or> (\<exists>t r ns ns'. a = Some (Dir t r ns) \<and> b = Some (Dir t r ns') \<and> mset ns' = mset ns)"
  using assms by (cases "(a, b)" rule: reordered.cases) auto

lemma same_tree_node:
  assumes "same_tree w w'"
  shows "node w' p = node w p
         \<or> (\<exists>t r ns ns'. node w p = Some (Dir t r ns) \<and> node w' p = Some (Dir t r ns')
                \<and> mset ns' = mset ns)"
  using assms reordered_cases [of "node w p" "node w' p"] by (simp add: same_tree_def)

lemma same_tree_exists:
  assumes "same_tree w w'"
  shows "exists_path w' p = exists_path w p"
  using same_tree_node [OF assms, of p] by (elim disjE exE conjE) (simp_all add: exists_path_def)

lemma same_tree_is_dir:
  assumes "same_tree w w'"
  shows "is_dir w' p = is_dir w p"
  using same_tree_node [OF assms, of p] by (elim disjE exE conjE) (simp_all add: is_dir_def)

lemma same_tree_mtime:
  assumes "same_tree w w'"
  shows "map_option mtime (node w' p) = map_option mtime (node w p)"
  using same_tree_node [OF assms, of p] by (elim disjE exE conjE) simp_all

lemma same_tree_iterdir:
  assumes "same_tree w w'"
  shows "rel_sum (=) (\<lambda>ds ds'. mset ds' = mset ds) (iterdir w p) (iterdir w' p)"
proof -
  from same_tree_node [OF assms, of p] consider
    (same) "node w' p = node w p"
    | (dir) t r ns ns' where "node w p = Some (Dir t r ns)" "node w' p = Some (Dir t r ns')"
        "mset ns' = mset ns"
    by blast
  then show ?thesis
  proof cases
    case same
    then have "iterdir w' p = iterdir w p" by (simp add: iterdir_def)
    then show ?thesis by (cases "iterdir w p") simp_all
  next
    case dir
    then show ?thesis by (simp add: iterdir_def)
  qed
qed

lemma same_tree_visible_subdirs:
  assumes "same_tree w w'"
  shows "rel_sum (=) (\<lambda>ds ds'. mset ds' = mset ds) (visible_subdirs w p) (visible_subdirs w' p)"
proof -
  have pred: "(\<lambda>d. is_dir w' d \<and> \<not> startswith (name_of d) ''.'')
                = (\<lambda>d. is_dir w d \<and> \<not> startswith (name_of d) ''.'')"
    by (simp add: same_tree_is_dir [OF assms])
  from same_tree_iterdir [OF assms, of p] show ?thesis
    unfolding visible_subdirs_def pred
    by (cases "iterdir w p"; cases "iterdir w' p") simp_all
qed

lemma same_tree_has_project_indicators:
  assumes "same_tree w w'"
  shows "has_project_indicators w' p = has_project_indicators w p"
  by (simp add: has_project_indicators_def same_tree_exists [OF assms])

lemma same_tree_any_exists:
  assumes "same_tree w w'"
  shows "any_exists w' p rels = any_exists w p rels"
  by (simp add: any_exists_def same_tree_exists [OF assms])

lemma same_tree_filter_indicators:
  assumes "same_tree w w'" and "mset ds' = mset ds"
  shows "length (filter (has_project_indicators w') ds') = length (filter (has_project_indicators w) ds)"
proof -
  have "has_project_indicators w' = has_project_indicators w"
    by (rule ext) (rule same_tree_has_project_indicators [OF assms(1)])
  moreover have "mset (filter (has_project_indicators w) ds') = mset (filter (has_project_indicators w) ds)"
    using assms(2) by simp
  ultimately show ?thesis by (metis size_mset)
qed

lemma same_tree_is_collection_folder:
  assumes "same_tree w w'"
  shows "is_collection_folder w' p = is_collection_folder w p"
proof (cases "visible_subdirs w p")
  case (Inl e)
  with same_tree_visible_subdirs [OF assms, of p] have "visible_subdirs w' p = Inl e"
    by (cases "visible_subdirs w' p") simp_all
  with Inl show ?thesis by (simp add: is_collection_folder_def)
next
  case (Inr ds)
  with same_tree_visible_subdirs [OF assms, of p] obtain ds' where
    ds': "visible_subdirs w' p = Inr ds'" "mset ds' = mset ds"
    by (cases "visible_subdirs w' p") simp_all
  from ds'(2) have len: "length ds' = length ds" by (metis size_mset)
  from is_collection_folder_iff [OF Inr] is_collection_folder_iff [OF ds'(1)]
    same_tree_filter_indicators [OF assms ds'(2)] len
  show ?thesis by simp
qed

lemma same_tree_glob:
  assumes "same_tree w w'"
  shows "(glob_ext w' p ext = []) = (glob_ext w p ext = [])"
proof -
  from same_tree_iterdir [OF assms, of p] show ?thesis
    unfolding glob_ext_def
    by (cases "iterdir w p"; cases "iterdir w' p")
       (auto simp: filter_empty_conv dest: mset_eq_setD)
qed

lemma same_tree_is_likely:
  assumes "same_tree w w'"
  shows "is_likely_project_directory w' p = is_likely_project_directory w p"
  unfolding is_likely_project_directory_def
  by (simp add: same_tree_any_exists [OF assms] same_tree_is_collection_folder [OF assms]
        same_tree_glob [OF assms])

lemma same_tree_key_val:
  assumes "same_tree w w'"
  shows "key_val w' p k = key_val w p k"
  using same_tree_node [OF assms, of "p @ [k]"]
  by (elim disjE exE conjE) (simp_all add: key_val_def)

lemma same_tree_max_key_mtime:
  assumes "same_tree w w'"
  shows "max_key_mtime w' p = max_key_mtime w p"
  by (simp add: max_key_mtime_Max same_tree_key_val [OF assms])

lemma same_tree_key_mtime:
  assumes "same_tree w w'"
  shows "key_mtime w' p = key_mtime w p"
  using same_tree_node [OF assms, of p]
  by (elim disjE exE conjE)
     (simp_all add: key_mtime_def Let_def same_tree_max_key_mtime [OF assms] cong: if_cong)

lemma same_tree_get_cache_key:
  assumes "same_tree w w'"
  shows "get_cache_key w' p = get_cache_key w p"
  by (simp add: get_cache_key_def same_tree_key_mtime [OF assms])

lemma same_tree_get_cached_project:
  assumes "same_tree w w'"
  shows "get_cached_project w' p c = get_cached_project w p c"
  unfolding get_cached_project_def same_tree_get_cache_key [OF assms] same_tree_exists [OF assms] ..

lemma same_tree_cache_project:
  assumes "same_tree w w'"
  shows "cache_project w' p i c = cache_project w p i c"
  unfolding cache_project_def same_tree_get_cache_key [OF assms] ..

lemma same_tree_quick_detect:
  assumes "same_tree w w'"
  shows "quick_detect_project_type w' p = quick_detect_project_type w p"
  unfolding quick_detect_project_type_def same_tree_exists [OF assms] ..

lemma same_tree_du:
  assumes "same_tree w w'"
  shows "du w' = du w"
  using assms by (simp add: same_tree_def)

lemma same_tree_quick_analyze:
  assumes "same_tree w w'"
  shows "quick_analyze_project w' p = quick_analyze_project w p"
proof (cases "du w p")
  case None
  then show ?thesis
    by (simp add: quick_analyze_project_def same_tree_du [OF assms])
next
  case (Some sz)
  show ?thesis
  proof (cases "is_collection_folder w p")
    case False
    with Some show ?thesis
      by (simp add: quick_analyze_project_def same_tree_du [OF assms]
            same_tree_is_collection_folder [OF assms] same_tree_quick_detect [OF assms])
  next
    case True
    then obtain ds where ds: "visible_subdirs w p = Inr ds"
      by (cases "visible_subdirs w p") (simp_all add: is_collection_folder_def)
    with same_tree_visible_subdirs [OF assms, of p] obtain ds' where
      ds': "visible_subdirs w' p = Inr ds'" "mset ds' = mset ds"
      by (cases "visible_subdirs w' p") simp_all
    from ds'(2) have len: "length ds' = length ds" by (metis size_mset)
    from Some True ds ds'(1) len same_tree_filter_indicators [OF assms ds'(2)] show ?thesis
      by (simp add: quick_analyze_project_def same_tree_du [OF assms]
            same_tree_is_collection_folder [OF assms])
  qed
qed

lemma same_tree_walk_up:
  assumes "same_tree w w'"
  shows "walk_up w' base cur = walk_up w base cur"
  using assms
proof (induction w base cur rule: walk_up.induct)
  case (1 w base cur)
  have likely: "is_likely_project_directory w' cur = is_likely_project_directory w cur"
    by (rule same_tree_is_likely [OF 1(2)])
  show ?case
  proof (cases "cur \<noteq> base \<and> cur \<noteq> butlast base \<and> \<not> is_likely_project_directory w cur \<and> cur \<noteq> []")
    case True
    with 1(1) [OF _ _ _ 1(2)] have "walk_up w' base (butlast cur) = walk_up w base (butlast cur)"
      by simp
    with True likely show ?thesis
      by (simp add: walk_up.simps [of w' base cur] walk_up.simps [of w base cur])
  next
    case False
    with likely show ?thesis
      by (auto simp: walk_up.simps [of w' base cur] walk_up.simps [of w base cur])
  qed
qed

lemma same_tree_detect_parent:
  assumes "same_tree w w'"
  shows "detect_parent_project w' pp base parent = detect_parent_project w pp base parent"
  by (simp add: detect_parent_project_def same_tree_walk_up [OF assms] split: option.splits)

lemma same_tree_project_like_item:
  assumes "same_tree w w'"
  shows "project_like_item w' = project_like_item w"
  by (rule ext)
     (simp add: project_like_item_def same_tree_is_dir [OF assms]
        same_tree_has_project_indicators [OF assms])

lemma same_tree_scan_indicators:
  assumes "same_tree w w'"
  shows "scan_indicators w' p inds = scan_indicators w p inds"
proof (induction inds)
  case Nil
  show ?case by simp
next
  case (Cons i inds)
  have ex: "exists_path w' (p @ [i]) = exists_path w (p @ [i])"
    by (rule same_tree_exists [OF assms])
  have dir: "is_dir w' (p @ [i]) = is_dir w (p @ [i])"
    by (rule same_tree_is_dir [OF assms])
  show ?case
  proof (cases "iterdir w (p @ [i])")
    case (Inl e)
    with same_tree_iterdir [OF assms, of "p @ [i]"] have "iterdir w' (p @ [i]) = Inl e"
      by (cases "iterdir w' (p @ [i])") simp_all
    with Inl Cons ex dir show ?thesis by simp
  next
    case (Inr items)
    with same_tree_iterdir [OF assms, of "p @ [i]"] obtain items' where
      it: "iterdir w' (p @ [i]) = Inr items'" "mset items' = mset items"
      by (cases "iterdir w' (p @ [i])") simp_all
    from it(2) have "set items' = set items" by (rule mset_eq_setD)
    then have "list_ex (project_like_item w) items' = list_ex (project_like_item w) items"
      by (simp add: list_ex_iff)
    with Inr it(1) Cons ex dir show ?thesis
      by (simp add: same_tree_project_like_item [OF assms])
  qed
qed

lemma same_tree_might_contain:
  assumes "same_tree w w'"
  shows "might_contain_subprojects w' p = might_contain_subprojects w p"
  unfolding might_contain_subprojects_def same_tree_is_collection_folder [OF assms]
    same_tree_scan_indicators [OF assms] same_tree_exists [OF assms] ..

lemma same_tree_visit_local:
  assumes "same_tree w w'"
  shows "visit_local w' cfg base parent d pp st = visit_local w cfg base parent d pp st"
  unfolding visit_local_def same_tree_is_likely [OF assms] same_tree_get_cached_project [OF assms]
    same_tree_quick_analyze [OF assms] same_tree_cache_project [OF assms]
    same_tree_detect_parent [OF assms] same_tree_get_cache_key [OF assms]
    same_tree_might_contain [OF assms] ..

lemma same_tree_sorted_dirs:
  assumes st: "same_tree w w'" and cd: "case_distinct w" and ds: "visible_subdirs w p = Inr ds"
  shows "\<exists>ds'. visible_subdirs w' p = Inr ds'
           \<and> sort_key (\<lambda>d. lower (name_of d)) ds' = sort_key (\<lambda>d. lower (name_of d)) ds"
proof -
  from ds same_tree_visible_subdirs [OF st, of p] obtain ds' where
    ds': "visible_subdirs w' p = Inr ds'" "mset ds' = mset ds"
    by (cases "visible_subdirs w' p") simp_all
  from ds'(2) have "set ds' = set ds" by (rule mset_eq_setD)
  with cd ds have inj: "inj_on (\<lambda>d. lower (name_of d)) (set ds')"
    by (simp add: case_distinct_def)
  have "sort_key (\<lambda>d. lower (name_of d)) ds' = sort_key (\<lambda>d. lower (name_of d)) ds"
    by (rule sort_key_inj_key_eq [OF _ inj]) (simp_all add: ds'(2))
  with ds'(1) show ?thesis by blast
qed

lemma same_tree_load:
  assumes "same_tree w w'" and "case_distinct w"
  shows "load_hierarchical_projects w' cfg base_path parent_path depth st
           = load_hierarchical_projects w cfg base_path parent_path depth st"
  using assms
proof (induction w cfg base_path parent_path depth st rule: load_hierarchical_projects.induct)
  case (1 w cfg base_path parent_path depth st)
  note IH = 1(1) and same = 1(2) and cd = 1(3)
  show ?case
  proof (cases "2 < depth")
    case True
    then show ?thesis by (simp add: load_hierarchical_projects.simps)
  next
    case shallow: False
    show ?thesis
    proof (cases "visible_subdirs w base_path")
      case (Inl e)
      with same_tree_visible_subdirs [OF same, of base_path]
      have "visible_subdirs w' base_path = Inl e"
        by (cases "visible_subdirs w' base_path") simp_all
      with Inl shallow show ?thesis
        by (simp add: load_hierarchical_projects.simps [of w' cfg base_path parent_path depth st]
              load_hierarchical_projects.simps [of w cfg base_path parent_path depth st])
    next
      case (Inr dirs)
      from same_tree_sorted_dirs [OF same cd Inr] obtain dirs' where
        d': "visible_subdirs w' base_path = Inr dirs'"
        and srt: "sort_key (\<lambda>d. lower (name_of d)) dirs' = sort_key (\<lambda>d. lower (name_of d)) dirs"
        by blast
      let ?xs = "take (max_dirs_per_level depth) (sort_key (\<lambda>d. lower (name_of d)) dirs)"
      let ?rec = "\<lambda>v project_path st'.
                     load_hierarchical_projects v cfg project_path (Some project_path) (depth + 1) st'"
      let ?body = "\<lambda>v pp st. visit_project (?rec v) v cfg base_path parent_path depth pp
                     (st\<lparr>trace := trace st @ [Examined depth pp]\<rparr>)"
      have l: "load_hierarchical_projects w cfg base_path parent_path depth st = fold (?body w) ?xs st"
        using shallow Inr
        by (simp add: load_hierarchical_projects.simps [of w cfg base_path parent_path depth st]
              scan_dirs_fold)
      have r: "load_hierarchical_projects w' cfg base_path parent_path depth st = fold (?body w') ?xs st"
        using shallow d' srt
        by (simp add: load_hierarchical_projects.simps [of w' cfg base_path parent_path depth st]
              scan_dirs_fold)
      have body: "?body w' pp s = ?body w pp s" for pp s
      proof -
        have "?rec w' pp s' = ?rec w pp s'" for s'
          by (rule IH [OF shallow Inr same cd])
        then show ?thesis
          by (simp add: visit_project_local same_tree_visit_local [OF same] split: prod.splits bool.splits)
      qed
      then have "?body w' = ?body w" by (intro ext)
      with l r show ?thesis by simp
    qed
  qed
qed

lemma same_tree_load_projects:
  assumes "same_tree w w'" and "case_distinct w"
  shows "load_projects w' cfg c q = load_projects w cfg c q"
  unfolding load_projects_def same_tree_exists [OF assms(1)] same_tree_load [OF assms] ..

lemma examined_on_append: "examined_on k (xs @ ys) = examined_on k xs @ examined_on k ys"
proof (induction xs)
  case Nil
  show ?case by simp
next
  case (Cons e es)
  then show ?case by (cases e) simp_all
qed

lemma length_examined_on: "length (examined_on k es) = examined_at k es"
proof (induction es)
  case Nil
  show ?case by simp
next
  case (Cons e es)
  then show ?case by (cases e) simp_all
qed

lemma trace_grows:
  "\<exists>ys. trace (load_hierarchical_projects w cfg base_path parent_path depth st) = trace st @ ys"
proof (rule load_hierarchical_projects_invariant [where Inv = "\<lambda>s. \<exists>ys. trace s = trace st @ ys"])
  show "\<exists>ys. trace st = trace st @ ys" by simp
next
  fix s base parent dirs d pp st' r
  assume "\<exists>ys. trace s = trace st @ ys"
    and loc: "visit_local w cfg base parent d pp (s\<lparr>trace := trace s @ [Examined d pp]\<rparr>) = (st', r)"
  then obtain ys where ys: "trace s = trace st @ ys" by blast
  from visit_local_examined [OF loc] obtain evs where
    "trace st' = trace s @ [Examined d pp] @ evs" by blast
  with ys have "trace st' = trace st @ (ys @ [Examined d pp] @ evs)" by simp
  then show "\<exists>ys. trace (if r then st'\<lparr>trace := trace st' @ [Recursing pp]\<rparr> else st') = trace st @ ys"
    by (cases r) auto
qed

lemma examined_on_deeper:
  assumes "k < depth"
  shows "examined_on k (trace (load_hierarchical_projects w cfg base_path parent_path depth st))
           = examined_on k (trace st)"
proof -
  from trace_grows [of w cfg base_path parent_path depth st] obtain ys where
    ys: "trace (load_hierarchical_projects w cfg base_path parent_path depth st) = trace st @ ys"
    by blast
  from assms have "fan_out_bound depth k = 0" by (simp add: fan_out_bound_def)
  with examined_at_bound [of k w cfg base_path parent_path depth st] ys
  have "examined_at k ys = 0" by (simp add: examined_at_append)
  then have "examined_on k ys = []" by (metis length_examined_on length_0_conv)
  with ys show ?thesis by (simp add: examined_on_append)
qed

lemma examined_on_call:
  assumes dirs: "visible_subdirs w base_path = Inr dirs" and shallow: "depth \<le> 2"
  shows "examined_on depth (trace (load_hierarchical_projects w cfg base_path parent_path depth st))
           = examined_on depth (trace st)
             @ take (max_dirs_per_level depth) (sort_key (\<lambda>d. lower (name_of d)) dirs)"
proof -
  let ?xs = "take (max_dirs_per_level depth) (sort_key (\<lambda>d. lower (name_of d)) dirs)"
  let ?rec = "\<lambda>project_path st'.
                 load_hierarchical_projects w cfg project_path (Some project_path) (depth + 1) st'"
  let ?body = "\<lambda>pp st. visit_project ?rec w cfg base_path parent_path depth pp
                 (st\<lparr>trace := trace st @ [Examined depth pp]\<rparr>)"
  have l: "load_hierarchical_projects w cfg base_path parent_path depth st = fold ?body ?xs st"
    using shallow dirs
    by (simp add: load_hierarchical_projects.simps [of w cfg base_path parent_path depth st]
          scan_dirs_fold)
  have body: "examined_on depth (trace (?body pp s)) = examined_on depth (trace s) @ [pp]" for pp s
  proof -
    obtain st' r where loc:
      "visit_local w cfg base_path parent_path depth pp
         (s\<lparr>trace := trace s @ [Examined depth pp]\<rparr>) = (st', r)"
      by (cases "visit_local w cfg base_path parent_path depth pp
         (s\<lparr>trace := trace s @ [Examined depth pp]\<rparr>)") blast
    from visit_local_examined [OF loc] obtain evs where
      tr: "trace st' = trace s @ [Examined depth pp] @ evs"
      and evs: "evs = [] \<or> evs = [CacheHit pp] \<or> evs = [CacheMiss pp]"
      by blast
    from evs have "examined_on depth evs = []" by auto
    with tr have e': "examined_on depth (trace st') = examined_on depth (trace s) @ [pp]"
      by (simp add: examined_on_append)
    show ?thesis
    proof (cases r)
      case True
      let ?s2 = "st'\<lparr>trace := trace st' @ [Recursing pp]\<rparr>"
      have "examined_on depth (trace (?rec pp ?s2)) = examined_on depth (trace ?s2)"
        by (rule examined_on_deeper) simp
      moreover have "examined_on depth (trace ?s2) = examined_on depth (trace st')"
        by (simp add: examined_on_append)
      ultimately show ?thesis
        using True loc e' by (simp add: visit_project_local)
    next
      case False
      with loc e' show ?thesis by (simp add: visit_project_local)
    qed
  qed
  have "examined_on depth (trace (fold ?body xs s)) = examined_on depth (trace s) @ xs" for xs s
  proof (induction xs arbitrary: s)
    case Nil
    show ?case by simp
  next
    case (Cons x xs)
    show ?case by (simp only: fold_simps Cons.IH body) simp
  qed
  with l show ?thesis by simp
qed

text \<open>
  The order of the visit, for every file system: a call of the scanner examines the
  visible subdirectories of its directory in the order of a stable sort by lower-cased
  name, up to the limit of its level, hence in non-decreasing case-insensitive order.
\<close>

lemma visiting_order:
  assumes "visible_subdirs w base_path = Inr dirs" and "depth \<le> 2"
  shows "examined_on depth (trace (load_hierarchical_projects w cfg base_path parent_path depth st))
           = examined_on depth (trace st)
             @ take (max_dirs_per_level depth) (sort_key (\<lambda>d. lower (name_of d)) dirs)
         \<and> sorted (map (\<lambda>d. lower (name_of d))
                     (take (max_dirs_per_level depth) (sort_key (\<lambda>d. lower (name_of d)) dirs)))"
proof -
  have "sorted (map (\<lambda>d. lower (name_of d)) (sort_key (\<lambda>d. lower (name_of d)) dirs))"
    by (rule sorted_sort_key)
  then have "sorted (take (max_dirs_per_level depth)
                 (map (\<lambda>d. lower (name_of d)) (sort_key (\<lambda>d. lower (name_of d)) dirs)))"
    by (rule sorted_wrt_take)
  then have s: "sorted (map (\<lambda>d. lower (name_of d))
                     (take (max_dirs_per_level depth) (sort_key (\<lambda>d. lower (name_of d)) dirs)))"
    by (simp add: take_map)
  from examined_on_call [OF assms] s show ?thesis by blast
qed

lemma node_w_two:
  "node (w_two [x, y]) p =
     (if p = [''r''] then Some (Dir 10 True [x, y])
      else if p = [''r'', x] then Some (Dir 10 True [''README.md''])
      else if p = [''r'', x, ''README.md''] then Some (File 10)
      else if p = [''r'', y] then Some (Dir 10 True [''README.md''])
      else if p = [''r'', y, ''README.md''] then Some (File 10)
      else None)"
  by (simp add: w_two_def mk_world_def)

lemma same_tree_w_two: "x \<noteq> y \<Longrightarrow> same_tree (w_two [x, y]) (w_two [y, x])"
  unfolding same_tree_def
  by (auto simp: node_w_two) (simp_all add: w_two_def mk_world_def)

text \<open>
  Claim C8. The children of a scanned directory are to be visited, and the records
  emitted, in case-insensitive order of name whatever the order of enumeration, so that
  two scans of the same tree give the same output order. The code sorts by the
  lower-cased name for this purpose and has no tie-break: where no two siblings are equal
  up to case the result does not depend on the enumeration (lemma
  \<open>same_tree_load_projects\<close>), but two siblings \<open>A\<close> and \<open>a\<close> have the same sort key, the
  stable sort keeps them in enumeration order, and the two scans of the same tree emit
  their records in different orders.
\<close>

theorem case_tie_follows_enumeration:
  "same_tree (w_two [''A'', ''a'']) (w_two [''a'', ''A''])
   \<and> lower ''A'' = lower ''a''
   \<and> map pi_path (projects (load_projects (w_two [''A'', ''a'']) (cfg_r False) Map.empty []))
       = [''/r/A'', ''/r/a'']
   \<and> map pi_path (projects (load_projects (w_two [''a'', ''A'']) (cfg_r False) Map.empty []))
       = [''/r/a'', ''/r/A'']"
proof -
  have h1: "same_tree (w_two [''A'', ''a'']) (w_two [''a'', ''A''])"
    by (rule same_tree_w_two) simp
  have k: "lower ''A'' = lower ''a''" by code_simp
  have a: "map pi_path (projects (load_projects (w_two [''A'', ''a'']) (cfg_r False) Map.empty []))
       = [''/r/A'', ''/r/a'']" by code_simp
  have b: "map pi_path (projects (load_projects (w_two [''a'', ''A'']) (cfg_r False) Map.empty []))
       = [''/r/a'', ''/r/A'']" by code_simp
  from h1 k a b show ?thesis by simp
qed

end
